theory Spec2Isabelle
  imports Main
begin

section \<open>Ghost-layer exchange of a distributed lattice simulation\<close>

text \<open>
  A shallow embedding of \<^verbatim>\<open>exchangePDF\<close> (src/exchangePDF.cpp) and of
  \<^verbatim>\<open>fillGhostLayersMacVar\<close> (src/fillGhostLayers.cpp).

  Conventions.
  \<^item> A C \<^verbatim>\<open>int\<close> has 32 bits. The sizes of lines 28-33 and the indices of the two
    copy loops (lines 48-51 and 345-348) are computed as the processor computes them: signed
    overflow, undefined in the source, wraps around (two's complement). The arguments of the
    calls of the transport library (lines 61-66 and 100-336) are mathematical integers: in a
    call with a ghost depth of one or more and extents of zero or more, each offset, count,
    block length and stride lies between zero and the scratch size \<open>MXP*MYP*MZP\<close>, so that
    none of them overflows once the scratch size fits an \<^verbatim>\<open>int\<close>.
  \<^item> A \<^verbatim>\<open>double\<close> is a value of an arbitrary type \<open>'a\<close>: the routine only copies.
  \<^item> A buffer is a list; a pointer into it is an offset. An access outside the buffer (undefined
    in the source) is the error \<open>OutOfBounds\<close>: the source promises nothing of a run that has
    it, neither that it stops nor what it returns.
  \<^item> Every call that leaves the routine (allocation, the transport library) is recorded, in
    program order, in a trace of events. Memory does not run out: an allocation of a size
    that is not negative succeeds.
\<close>

subsection \<open>Errors, memory accesses and counted loops\<close>

datatype error =
    BadArrayNewLength  \<comment> \<open>\<^verbatim>\<open>new double[n]\<close> with negative \<open>n\<close>\<close>
  | OutOfBounds        \<comment> \<open>a read or write outside a buffer\<close>
  | MPI_Abort          \<comment> \<open>the transport library reports an error (fatal by default)\<close>

definition rd :: "'a list \<Rightarrow> int \<Rightarrow> error + 'a" where
  "rd buf p = (if 0 \<le> p \<and> p < int (length buf) then Inr (buf ! nat p) else Inl OutOfBounds)"

definition wr :: "'a list \<Rightarrow> int \<Rightarrow> 'a \<Rightarrow> error + 'a list" where
  "wr buf p v = (if 0 \<le> p \<and> p < int (length buf) then Inr (buf[nat p := v]) else Inl OutOfBounds)"

text \<open>The values \<open>0, 1, ..., n-1\<close> of \<^verbatim>\<open>for (int i = 0; i < n; i++)\<close>.\<close>

definition irange :: "int \<Rightarrow> int list" where
  "irange n = map int [0..<nat n]"

text \<open>Sequencing of steps that may fail: the first failure ends the routine.\<close>

definition bind_err :: "error + 'a \<Rightarrow> ('a \<Rightarrow> error + 'b) \<Rightarrow> error + 'b" where
  "bind_err m f = (case m of Inl e \<Rightarrow> Inl e | Inr x \<Rightarrow> f x)"

text \<open>A loop whose body may fail: the first failure ends it.\<close>

fun for_each :: "'x list \<Rightarrow> ('x \<Rightarrow> 's \<Rightarrow> error + 's) \<Rightarrow> 's \<Rightarrow> error + 's" where
  "for_each [] body s = Inr s"
| "for_each (x # xs) body s = bind_err (body x s) (for_each xs body)"

subsection \<open>32-bit integers\<close>

text \<open>
  The value of a mathematical integer as a 32-bit \<^verbatim>\<open>int\<close> (two's complement), and the sum
  and the product of two \<^verbatim>\<open>int\<close>s as the processor computes them.
\<close>

definition int32 :: "int \<Rightarrow> int" where
  "int32 x = (x + 2147483648) mod 4294967296 - 2147483648"

definition add_int :: "int \<Rightarrow> int \<Rightarrow> int" where
  "add_int x y = int32 (x + y)"

definition mul_int :: "int \<Rightarrow> int \<Rightarrow> int" where
  "mul_int x y = int32 (x * y)"

subsection \<open>Repacking stage (exchangePDF.cpp, lines 43-57 and 340-354)\<close>

text \<open>
  \<^verbatim>\<open>index_3d = i + j*MXP + k*MXP*MYP\<close> and \<^verbatim>\<open>index_4d = a + (index_3d * Q)\<close>, in the
  order in which C evaluates them.
\<close>

definition gather :: "int \<Rightarrow> int \<Rightarrow> int \<Rightarrow> int \<Rightarrow> int \<Rightarrow> 'a list \<Rightarrow> 'a list \<Rightarrow> error + 'a list" where
  "gather a Q MXP MYP MZP PDF4d PDF3d =
     for_each (irange MXP) (\<lambda>i.
       for_each (irange MYP) (\<lambda>j.
         for_each (irange MZP) (\<lambda>k PDF3d.
           let index_3d = add_int (add_int i (mul_int j MXP)) (mul_int (mul_int k MXP) MYP);
               index_4d = add_int a (mul_int index_3d Q)
           in bind_err (rd PDF4d index_4d) (wr PDF3d index_3d)))) PDF3d"

definition scatter :: "int \<Rightarrow> int \<Rightarrow> int \<Rightarrow> int \<Rightarrow> int \<Rightarrow> 'a list \<Rightarrow> 'a list \<Rightarrow> error + 'a list" where
  "scatter a Q MXP MYP MZP PDF3d PDF4d =
     for_each (irange MXP) (\<lambda>i.
       for_each (irange MYP) (\<lambda>j.
         for_each (irange MZP) (\<lambda>k PDF4d.
           let index_3d = add_int (add_int i (mul_int j MXP)) (mul_int (mul_int k MXP) MYP);
               index_4d = add_int a (mul_int index_3d Q)
           in bind_err (rd PDF3d index_3d) (wr PDF4d index_4d)))) PDF4d"

subsection \<open>The transport library\<close>

text \<open>
  The message-passing library is not part of the sources. The entry points the routine uses
  are modelled from the spec (sections 3, 4.2, 6 and 9) and the library's standard.
\<close>

datatype MPI_Datatype =
    MPI_DOUBLE
  | Vector int int int  \<comment> \<open>count, block length, stride, in elements of \<^verbatim>\<open>MPI_DOUBLE\<close>\<close>

text \<open>
  Modelled from the spec: \<^verbatim>\<open>MPI_Type_vector(count, blocklength, stride, MPI_DOUBLE, &t)\<close>,
  the mechanism "to describe a strided/non-contiguous region as a single logical transfer unit".
  A negative count or block length is an argument error.
\<close>

definition MPI_Type_vector :: "int \<Rightarrow> int \<Rightarrow> int \<Rightarrow> error + MPI_Datatype" where
  "MPI_Type_vector count blocklength stride =
     (if count < 0 \<or> blocklength < 0 then Inl MPI_Abort
      else Inr (Vector count blocklength stride))"

text \<open>
  Modelled from the spec: the elements a descriptor denotes, as displacements from a base
  ("count, run length, stride"): \<open>count\<close> runs of \<open>blocklength\<close> consecutive elements, the
  runs \<open>stride\<close> elements apart.
\<close>

fun type_displs :: "MPI_Datatype \<Rightarrow> int list" where
  "type_displs MPI_DOUBLE = [0]"
| "type_displs (Vector count blocklength stride) =
     concat (map (\<lambda>b. map (\<lambda>e. b * stride + e) (irange blocklength)) (irange count))"

fun type_extent :: "MPI_Datatype \<Rightarrow> int" where
  "type_extent MPI_DOUBLE = 1"
| "type_extent (Vector count blocklength stride) = (count - 1) * stride + blocklength"

text \<open>The offsets of a transfer of \<open>count\<close> items of a datatype starting at offset \<open>base\<close>.\<close>

definition buffer_addrs :: "int \<Rightarrow> int \<Rightarrow> MPI_Datatype \<Rightarrow> int list" where
  "buffer_addrs base count ty =
     concat (map (\<lambda>n. map (\<lambda>d. base + n * type_extent ty + d) (type_displs ty)) (irange count))"

record sendrecv_call =
  sendbuf   :: int  \<comment> \<open>offset of the send buffer in \<^verbatim>\<open>PDF3d\<close>\<close>
  sendcount :: int
  sendtype  :: MPI_Datatype
  dest      :: int
  sendtag   :: int
  recvbuf   :: int  \<comment> \<open>offset of the receive buffer in \<^verbatim>\<open>PDF3d\<close>\<close>
  recvcount :: int
  recvtype  :: MPI_Datatype
  source    :: int
  recvtag   :: int
  comm      :: int

datatype event =
    New int                     \<comment> \<open>\<^verbatim>\<open>new double[n]\<close>\<close>
  | Delete                      \<comment> \<open>\<^verbatim>\<open>delete [] PDF3d\<close>\<close>
  | Type_commit MPI_Datatype
  | Type_free MPI_Datatype
  | Sendrecv sendrecv_call

text \<open>
  The world outside the routine: the rank that denotes "no neighbor", the payload the transport
  delivers to each paired call (\<open>None\<close>: the transport fails), given the number of events
  before the call, the call and the payload it sends, and the content of freshly allocated
  memory.
\<close>

record 'a world =
  MPI_PROC_NULL :: int
  incoming      :: "nat \<Rightarrow> sendrecv_call \<Rightarrow> 'a list \<Rightarrow> 'a list option"
  uninitialized :: "nat \<Rightarrow> 'a"

definition read_all :: "'a list \<Rightarrow> int list \<Rightarrow> error + 'a list" where
  "read_all buf ps =
     for_each ps (\<lambda>p acc. bind_err (rd buf p) (\<lambda>v. Inr (acc @ [v]))) []"

definition write_all :: "'a list \<Rightarrow> (int \<times> 'a) list \<Rightarrow> error + 'a list" where
  "write_all buf pvs = for_each pvs (\<lambda>(p, v) buf. wr buf p v) buf"

text \<open>
  Modelled from the spec: \<^verbatim>\<open>MPI_Sendrecv\<close>, the "blocking paired send-receive primitive
  parameterized by (send buffer, send count/descriptor, destination, tag, receive buffer,
  receive count/descriptor, source, tag)". A leg whose peer is "no neighbor" is skipped
  (section 9: "skip both legs"); the send leg reads the elements of its descriptor, the
  receive leg stores the delivered payload into the leading elements of its descriptor, and a
  payload longer than the descriptor is a transport error.
\<close>

definition MPI_Sendrecv ::
  "'a world \<Rightarrow> sendrecv_call \<Rightarrow> 'a list \<times> event list \<Rightarrow> error + ('a list \<times> event list)" where
  "MPI_Sendrecv w c st =
     (case st of (buf, tr) \<Rightarrow>
      if sendcount c < 0 \<or> recvcount c < 0 then Inl MPI_Abort
      else
        bind_err (if dest c = MPI_PROC_NULL w then Inr []
                  else read_all buf (buffer_addrs (sendbuf c) (sendcount c) (sendtype c)))
          (\<lambda>sent.
            if source c = MPI_PROC_NULL w then Inr (buf, tr @ [Sendrecv c])
            else
              (case incoming w (length tr) c sent of
                 None \<Rightarrow> Inl MPI_Abort
               | Some msg \<Rightarrow>
                   let addrs = buffer_addrs (recvbuf c) (recvcount c) (recvtype c)
                   in if length addrs < length msg then Inl MPI_Abort
                      else bind_err (write_all buf (zip addrs msg))
                             (\<lambda>buf'. Inr (buf', tr @ [Sendrecv c])))))"

subsection \<open>Six-direction exchange engine (exchangePDF.cpp, lines 100-336)\<close>

text \<open>The six paired calls of ghost layer \<open>i\<close>, each named after the neighbor it sends to.\<close>

definition call_top ::
  "int \<Rightarrow> int \<Rightarrow> int \<Rightarrow> int \<Rightarrow> int \<Rightarrow> int \<Rightarrow> int \<Rightarrow> int \<Rightarrow> sendrecv_call" where
  "call_top nn MX MY MZ CART_COMM nbr_BOTTOM nbr_TOP i =
     (let MXP = nn+MX+nn; MYP = nn+MY+nn; no_xy = MXP*MYP;
          sx = 0; sy = 0; sz = nn + (MZ-1) - i;
          rx = 0; ry = 0; rz = (nn - 1) - i;
          send = sx + sy * MXP + sz * MXP*MYP;
          recv = rx + ry * MXP + rz * MXP*MYP
      in \<lparr>sendbuf = send, sendcount = no_xy, sendtype = MPI_DOUBLE, dest = nbr_TOP, sendtag = 111,
          recvbuf = recv, recvcount = no_xy, recvtype = MPI_DOUBLE, source = nbr_BOTTOM,
          recvtag = 111, comm = CART_COMM\<rparr>)"

definition call_bottom ::
  "int \<Rightarrow> int \<Rightarrow> int \<Rightarrow> int \<Rightarrow> int \<Rightarrow> int \<Rightarrow> int \<Rightarrow> int \<Rightarrow> sendrecv_call" where
  "call_bottom nn MX MY MZ CART_COMM nbr_BOTTOM nbr_TOP i =
     (let MXP = nn+MX+nn; MYP = nn+MY+nn; no_xy = MXP*MYP;
          sx = 0; sy = 0; sz = nn + i;
          rx = 0; ry = 0; rz = nn + MZ + i;
          send = sx + sy * MXP + sz * MXP*MYP;
          recv = rx + ry * MXP + rz * MXP*MYP
      in \<lparr>sendbuf = send, sendcount = no_xy, sendtype = MPI_DOUBLE, dest = nbr_BOTTOM,
          sendtag = 222, recvbuf = recv, recvcount = no_xy, recvtype = MPI_DOUBLE,
          source = nbr_TOP, recvtag = 222, comm = CART_COMM\<rparr>)"

definition call_east ::
  "int \<Rightarrow> int \<Rightarrow> int \<Rightarrow> int \<Rightarrow> int \<Rightarrow> int \<Rightarrow> int \<Rightarrow> MPI_Datatype \<Rightarrow> int \<Rightarrow> sendrecv_call" where
  "call_east nn MX MY MZ CART_COMM nbr_WEST nbr_EAST stridex i =
     (let MXP = nn+MX+nn; MYP = nn+MY+nn;
          sx = nn + (MX-1) - i; sy = 0; sz = 0;
          rx = (nn - 1) - i; ry = 0; rz = 0;
          send = sx + sy * MXP + sz * MXP*MYP;
          recv = rx + ry * MXP + rz * MXP*MYP
      in \<lparr>sendbuf = send, sendcount = 1, sendtype = stridex, dest = nbr_EAST, sendtag = 333,
          recvbuf = recv, recvcount = 1, recvtype = stridex, source = nbr_WEST,
          recvtag = 333, comm = CART_COMM\<rparr>)"

definition call_west ::
  "int \<Rightarrow> int \<Rightarrow> int \<Rightarrow> int \<Rightarrow> int \<Rightarrow> int \<Rightarrow> int \<Rightarrow> MPI_Datatype \<Rightarrow> int \<Rightarrow> sendrecv_call" where
  "call_west nn MX MY MZ CART_COMM nbr_WEST nbr_EAST stridex i =
     (let MXP = nn+MX+nn; MYP = nn+MY+nn;
          sx = nn + i; sy = 0; sz = 0;
          rx = nn + MX + i; ry = 0; rz = 0;
          send = sx + sy * MXP + sz * MXP*MYP;
          recv = rx + ry * MXP + rz * MXP*MYP
      in \<lparr>sendbuf = send, sendcount = 1, sendtype = stridex, dest = nbr_WEST, sendtag = 444,
          recvbuf = recv, recvcount = 1, recvtype = stridex, source = nbr_EAST,
          recvtag = 444, comm = CART_COMM\<rparr>)"

definition call_north ::
  "int \<Rightarrow> int \<Rightarrow> int \<Rightarrow> int \<Rightarrow> int \<Rightarrow> int \<Rightarrow> int \<Rightarrow> MPI_Datatype \<Rightarrow> int \<Rightarrow> sendrecv_call" where
  "call_north nn MX MY MZ CART_COMM nbr_SOUTH nbr_NORTH stridey i =
     (let MXP = nn+MX+nn; MYP = nn+MY+nn;
          sx = 0; sy = nn + (MY-1) - i; sz = 0;
          rx = 0; ry = (nn - 1) - i; rz = 0;
          send = sx + sy * MXP + sz * MXP*MYP;
          recv = rx + ry * MXP + rz * MXP*MYP
      in \<lparr>sendbuf = send, sendcount = 1, sendtype = stridey, dest = nbr_NORTH, sendtag = 555,
          recvbuf = recv, recvcount = 1, recvtype = stridey, source = nbr_SOUTH,
          recvtag = 555, comm = CART_COMM\<rparr>)"

definition call_south ::
  "int \<Rightarrow> int \<Rightarrow> int \<Rightarrow> int \<Rightarrow> int \<Rightarrow> int \<Rightarrow> int \<Rightarrow> MPI_Datatype \<Rightarrow> int \<Rightarrow> sendrecv_call" where
  "call_south nn MX MY MZ CART_COMM nbr_SOUTH nbr_NORTH stridey i =
     (let MXP = nn+MX+nn; MYP = nn+MY+nn;
          sx = 0; sy = nn + i; sz = 0;
          rx = 0; ry = nn + MY + i; rz = 0;
          send = sx + sy * MXP + sz * MXP*MYP;
          recv = rx + ry * MXP + rz * MXP*MYP
      in \<lparr>sendbuf = send, sendcount = 1, sendtype = stridey, dest = nbr_SOUTH, sendtag = 666,
          recvbuf = recv, recvcount = 1, recvtype = stridey, source = nbr_NORTH,
          recvtag = 666, comm = CART_COMM\<rparr>)"

text \<open>The body of the loop over the ghost layers: the six calls in program order.\<close>

definition layer_calls ::
  "int \<Rightarrow> int \<Rightarrow> int \<Rightarrow> int \<Rightarrow> int \<Rightarrow> int \<Rightarrow> int \<Rightarrow> int \<Rightarrow> int \<Rightarrow> int \<Rightarrow> int \<Rightarrow>
   MPI_Datatype \<Rightarrow> MPI_Datatype \<Rightarrow> int \<Rightarrow> sendrecv_call list" where
  "layer_calls nn MX MY MZ CART_COMM nbr_WEST nbr_EAST nbr_SOUTH nbr_NORTH nbr_BOTTOM nbr_TOP
     stridex stridey i =
     [call_top nn MX MY MZ CART_COMM nbr_BOTTOM nbr_TOP i,
      call_bottom nn MX MY MZ CART_COMM nbr_BOTTOM nbr_TOP i,
      call_east nn MX MY MZ CART_COMM nbr_WEST nbr_EAST stridex i,
      call_west nn MX MY MZ CART_COMM nbr_WEST nbr_EAST stridex i,
      call_north nn MX MY MZ CART_COMM nbr_SOUTH nbr_NORTH stridey i,
      call_south nn MX MY MZ CART_COMM nbr_SOUTH nbr_NORTH stridey i]"

definition exchange_layers ::
  "'a world \<Rightarrow> int \<Rightarrow> int \<Rightarrow> int \<Rightarrow> int \<Rightarrow> int \<Rightarrow> int \<Rightarrow> int \<Rightarrow> int \<Rightarrow> int \<Rightarrow> int \<Rightarrow> int \<Rightarrow>
   MPI_Datatype \<Rightarrow> MPI_Datatype \<Rightarrow> 'a list \<times> event list \<Rightarrow> error + ('a list \<times> event list)" where
  "exchange_layers w nn MX MY MZ CART_COMM nbr_WEST nbr_EAST nbr_SOUTH nbr_NORTH nbr_BOTTOM
     nbr_TOP stridex stridey st =
     for_each (irange nn) (\<lambda>i.
       for_each (layer_calls nn MX MY MZ CART_COMM nbr_WEST nbr_EAST nbr_SOUTH nbr_NORTH
                   nbr_BOTTOM nbr_TOP stridex stridey i)
                (MPI_Sendrecv w)) st"

subsection \<open>The routine (exchangePDF.cpp, lines 11-364)\<close>

text \<open>The two descriptors built for each component (lines 60-67).\<close>

definition build_stridex :: "int \<Rightarrow> int \<Rightarrow> int \<Rightarrow> int \<Rightarrow> error + MPI_Datatype" where
  "build_stridex nn MX MY MZ = MPI_Type_vector ((MY+nn+nn)*(MZ+nn+nn)) 1 (MX+nn+nn)"

definition build_stridey :: "int \<Rightarrow> int \<Rightarrow> int \<Rightarrow> int \<Rightarrow> error + MPI_Datatype" where
  "build_stridey nn MX MY MZ = MPI_Type_vector (MZ+nn+nn) (MX+nn+nn) ((MY+nn+nn)*(MX+nn+nn))"

text \<open>The padded extents \<^verbatim>\<open>MXP\<close>, \<^verbatim>\<open>MYP\<close>, \<^verbatim>\<open>MZP\<close> of lines 28-30: \<^verbatim>\<open>nn+M+nn\<close>.\<close>

definition padded :: "int \<Rightarrow> int \<Rightarrow> int" where
  "padded nn M = add_int (add_int nn M) nn"

text \<open>The scratch size \<^verbatim>\<open>PADDED_VOXELS = MXP*MYP*MZP\<close> of line 33.\<close>

definition padded_voxels :: "int \<Rightarrow> int \<Rightarrow> int \<Rightarrow> int \<Rightarrow> int" where
  "padded_voxels nn MX MY MZ =
     (let MXP = padded nn MX; MYP = padded nn MY; MZP = padded nn MZ
      in mul_int (mul_int MXP MYP) MZP)"

text \<open>The body of the loop over the components: the state is the field, the scratch buffer
  and the trace.\<close>

definition component_pass ::
  "'a world \<Rightarrow> int \<Rightarrow> int \<Rightarrow> int \<Rightarrow> int \<Rightarrow> int \<Rightarrow> int \<Rightarrow> int \<Rightarrow> int \<Rightarrow> int \<Rightarrow> int \<Rightarrow> int \<Rightarrow> int \<Rightarrow>
   int \<Rightarrow> 'a list \<times> 'a list \<times> event list \<Rightarrow> error + ('a list \<times> 'a list \<times> event list)" where
  "component_pass w nn Q MX MY MZ CART_COMM nbr_WEST nbr_EAST nbr_SOUTH nbr_NORTH nbr_BOTTOM
     nbr_TOP a st =
     (case st of (PDF4d, PDF3d, tr) \<Rightarrow>
      let MXP = padded nn MX; MYP = padded nn MY; MZP = padded nn MZ
      in
      bind_err (gather a Q MXP MYP MZP PDF4d PDF3d) (\<lambda>PDF3d.
      bind_err (build_stridex nn MX MY MZ) (\<lambda>stridex.
      bind_err (build_stridey nn MX MY MZ) (\<lambda>stridey.
      bind_err (exchange_layers w nn MX MY MZ CART_COMM nbr_WEST nbr_EAST nbr_SOUTH nbr_NORTH
                  nbr_BOTTOM nbr_TOP stridex stridey
                  (PDF3d, tr @ [Type_commit stridex, Type_commit stridey])) (\<lambda>(PDF3d, tr).
      bind_err (scatter a Q MXP MYP MZP PDF3d PDF4d) (\<lambda>PDF4d.
      Inr (PDF4d, PDF3d, tr @ [Type_free stridex, Type_free stridey])))))))"

definition new_array :: "'a world \<Rightarrow> int \<Rightarrow> error + 'a list" where
  "new_array w n = (if n < 0 then Inl BadArrayNewLength
                    else Inr (map (uninitialized w) [0..<nat n]))"

text \<open>
  The routine: the scratch size of lines 28-33, the allocation of line 37, the loop over the
  components, the release of line 363. It returns the field as it leaves it, and the trace of
  its calls.
\<close>

definition exchangePDF ::
  "'a world \<Rightarrow> int \<Rightarrow> int \<Rightarrow> int \<Rightarrow> int \<Rightarrow> int \<Rightarrow> int \<Rightarrow> int \<Rightarrow> int \<Rightarrow> int \<Rightarrow> int \<Rightarrow> int \<Rightarrow> int \<Rightarrow>
   int \<Rightarrow> 'a list \<Rightarrow> error + ('a list \<times> event list)" where
  "exchangePDF w nn Q MX MY MZ myid CART_COMM nbr_WEST nbr_EAST nbr_SOUTH nbr_NORTH nbr_BOTTOM
     nbr_TOP PDF4d =
     (let PADDED_VOXELS = padded_voxels nn MX MY MZ
      in
      bind_err (new_array w PADDED_VOXELS) (\<lambda>PDF3d.
      bind_err (for_each (irange Q)
                  (component_pass w nn Q MX MY MZ CART_COMM nbr_WEST nbr_EAST nbr_SOUTH nbr_NORTH
                     nbr_BOTTOM nbr_TOP)
                  (PDF4d, PDF3d, [New PADDED_VOXELS])) (\<lambda>(PDF4d, PDF3d, tr).
      Inr (PDF4d, tr @ [Delete]))))"

subsection \<open>Spec side: addressing, faces and descriptors (spec, section 3)\<close>

definition index3D :: "int \<Rightarrow> int \<Rightarrow> int \<Rightarrow> int \<Rightarrow> int \<Rightarrow> int" where
  "index3D MXP MYP i j k = i + j*MXP + k*MXP*MYP"

definition index4D :: "int \<Rightarrow> int \<Rightarrow> int \<Rightarrow> int \<Rightarrow> int \<Rightarrow> int \<Rightarrow> int \<Rightarrow> int" where
  "index4D Q MXP MYP i j k a = a + index3D MXP MYP i j k * Q"

text \<open>The padded voxels.\<close>

definition in_box :: "int \<Rightarrow> int \<Rightarrow> int \<Rightarrow> int \<Rightarrow> int \<Rightarrow> int \<Rightarrow> bool" where
  "in_box MXP MYP MZP i j k \<longleftrightarrow> 0 \<le> i \<and> i < MXP \<and> 0 \<le> j \<and> j < MYP \<and> 0 \<le> k \<and> k < MZP"

text \<open>The two face descriptors: "count = MYP*MZP, element stride = MXP" and
  "count = MZP, run length = MXP, stride between runs = MXP*MYP".\<close>

definition x_normal :: "int \<Rightarrow> int \<Rightarrow> int \<Rightarrow> MPI_Datatype" where
  "x_normal MXP MYP MZP = Vector (MYP*MZP) 1 MXP"

definition y_normal :: "int \<Rightarrow> int \<Rightarrow> int \<Rightarrow> MPI_Datatype" where
  "y_normal MXP MYP MZP = Vector MZP MXP (MXP*MYP)"

text \<open>
  The ghost voxels a non-boundary neighbor refreshes: those on the side of a neighbor that is
  not "no neighbor".
\<close>

definition refreshed ::
  "'a world \<Rightarrow> int \<Rightarrow> int \<Rightarrow> int \<Rightarrow> int \<Rightarrow> int \<Rightarrow> int \<Rightarrow> int \<Rightarrow> int \<Rightarrow> int \<Rightarrow> int \<Rightarrow>
   int \<Rightarrow> int \<Rightarrow> int \<Rightarrow> bool" where
  "refreshed w nn MX MY MZ nbr_WEST nbr_EAST nbr_SOUTH nbr_NORTH nbr_BOTTOM nbr_TOP i j k \<longleftrightarrow>
     i < nn \<and> nbr_WEST \<noteq> MPI_PROC_NULL w \<or> nn + MX \<le> i \<and> nbr_EAST \<noteq> MPI_PROC_NULL w \<or>
     j < nn \<and> nbr_SOUTH \<noteq> MPI_PROC_NULL w \<or> nn + MY \<le> j \<and> nbr_NORTH \<noteq> MPI_PROC_NULL w \<or>
     k < nn \<and> nbr_BOTTOM \<noteq> MPI_PROC_NULL w \<or> nn + MZ \<le> k \<and> nbr_TOP \<noteq> MPI_PROC_NULL w"

text \<open>
  The events of one component's pass: the two descriptors are committed, every ghost layer
  issues its six paired calls, the two descriptors are freed.
\<close>

definition component_events ::
  "int \<Rightarrow> int \<Rightarrow> int \<Rightarrow> int \<Rightarrow> int \<Rightarrow> int \<Rightarrow> int \<Rightarrow> int \<Rightarrow> int \<Rightarrow> int \<Rightarrow> int \<Rightarrow> event list" where
  "component_events nn MX MY MZ CART_COMM nbr_WEST nbr_EAST nbr_SOUTH nbr_NORTH nbr_BOTTOM
     nbr_TOP =
     (let stridex = x_normal (nn+MX+nn) (nn+MY+nn) (nn+MZ+nn);
          stridey = y_normal (nn+MX+nn) (nn+MY+nn) (nn+MZ+nn)
      in [Type_commit stridex, Type_commit stridey] @
         concat (map (\<lambda>i. map Sendrecv
                   (layer_calls nn MX MY MZ CART_COMM nbr_WEST nbr_EAST nbr_SOUTH nbr_NORTH
                      nbr_BOTTOM nbr_TOP stridex stridey i)) (irange nn)) @
         [Type_free stridex, Type_free stridey])"

text \<open>The paired calls, the allocations and the releases that a trace records.\<close>

fun sendrecv_calls :: "event list \<Rightarrow> sendrecv_call list" where
  "sendrecv_calls [] = []"
| "sendrecv_calls (Sendrecv c # es) = c # sendrecv_calls es"
| "sendrecv_calls (e # es) = sendrecv_calls es"

fun allocations :: "event list \<Rightarrow> int list" where
  "allocations [] = []"
| "allocations (New n # es) = n # allocations es"
| "allocations (e # es) = allocations es"

fun releases :: "event list \<Rightarrow> nat" where
  "releases [] = 0"
| "releases (Delete # es) = Suc (releases es)"
| "releases (e # es) = releases es"



text \<open>
  A transport that delivers: every paired call is answered with a payload that fits its receive
  descriptor.
\<close>

definition transport_delivers :: "'a world \<Rightarrow> bool" where
  "transport_delivers w \<longleftrightarrow>
     (\<forall>n c sent. \<exists>msg. incoming w n c sent = Some msg \<and>
        length msg \<le> length (buffer_addrs (recvbuf c) (recvcount c) (recvtype c)))"

text \<open>
  A world for the examples: rank \<open>-1\<close> is "no neighbor", every cell a peer sends holds \<open>v\<close>,
  and so does fresh memory.
\<close>

definition uniform_world :: "'a \<Rightarrow> 'a world" where
  "uniform_world v =
     \<lparr>MPI_PROC_NULL = -1,
      incoming = (\<lambda>n c sent. Some (replicate
                    (length (buffer_addrs (recvbuf c) (recvcount c) (recvtype c))) v)),
      uninitialized = (\<lambda>n. v)\<rparr>"

subsection \<open>The scalar fields (fillGhostLayers.cpp)\<close>

text \<open>
  \<^verbatim>\<open>exchangeDBL\<close>, the exchange of one scalar field, is declared in a header and defined
  outside the sources: it is a parameter here, any function of its twelve arguments, of the
  field it is given and of the state of the world, that returns the field and the world as it
  leaves them.
\<close>

type_synonym ('f, 's) exchangeDBL =
  "int \<Rightarrow> int \<Rightarrow> int \<Rightarrow> int \<Rightarrow> int \<Rightarrow> int \<Rightarrow> int \<Rightarrow> int \<Rightarrow> int \<Rightarrow> int \<Rightarrow> int \<Rightarrow> int \<Rightarrow>
   'f \<Rightarrow> 's \<Rightarrow> 'f \<times> 's"

definition fillGhostLayersMacVar ::
  "('f, 's) exchangeDBL \<Rightarrow> int \<Rightarrow> int \<Rightarrow> int \<Rightarrow> int \<Rightarrow> int \<Rightarrow> int \<Rightarrow> int \<Rightarrow> int \<Rightarrow> int \<Rightarrow>
   int \<Rightarrow> int \<Rightarrow> int \<Rightarrow> 'f \<Rightarrow> 'f \<Rightarrow> 'f \<Rightarrow> 'f \<Rightarrow> 's \<Rightarrow> ('f \<times> 'f \<times> 'f \<times> 'f) \<times> 's" where
  "fillGhostLayersMacVar exchangeDBL nn LX LY LZ myid CART_COMM nbr_WEST nbr_EAST nbr_SOUTH
     nbr_NORTH nbr_BOTTOM nbr_TOP rho u v w s =
     (case exchangeDBL nn LX LY LZ myid CART_COMM nbr_WEST nbr_EAST nbr_SOUTH nbr_NORTH
             nbr_BOTTOM nbr_TOP rho s of (rho, s) \<Rightarrow>
      case exchangeDBL nn LX LY LZ myid CART_COMM nbr_WEST nbr_EAST nbr_SOUTH nbr_NORTH
             nbr_BOTTOM nbr_TOP u s of (u, s) \<Rightarrow>
      case exchangeDBL nn LX LY LZ myid CART_COMM nbr_WEST nbr_EAST nbr_SOUTH nbr_NORTH
             nbr_BOTTOM nbr_TOP v s of (v, s) \<Rightarrow>
      case exchangeDBL nn LX LY LZ myid CART_COMM nbr_WEST nbr_EAST nbr_SOUTH nbr_NORTH
             nbr_BOTTOM nbr_TOP w s of (w, s) \<Rightarrow>
      ((rho, u, v, w), s))"

text \<open>
  A collaborator that also keeps a log of its calls: the twelve arguments and the field of
  each call, in the order of the calls.
\<close>

definition logged ::
  "('f, 's) exchangeDBL \<Rightarrow> ('f, 's \<times> (int list \<times> 'f) list) exchangeDBL" where
  "logged ex nn LX LY LZ myid CART_COMM nbr_WEST nbr_EAST nbr_SOUTH nbr_NORTH nbr_BOTTOM nbr_TOP
     field st =
     (case st of (s, log) \<Rightarrow>
      case ex nn LX LY LZ myid CART_COMM nbr_WEST nbr_EAST nbr_SOUTH nbr_NORTH nbr_BOTTOM nbr_TOP
             field s of (field', s') \<Rightarrow>
      (field', (s', log @ [([nn, LX, LY, LZ, myid, CART_COMM, nbr_WEST, nbr_EAST, nbr_SOUTH,
                             nbr_NORTH, nbr_BOTTOM, nbr_TOP], field)])))"

section \<open>Loops, indices and repacking\<close>

lemma bind_err_simps [simp]:
  "bind_err (Inl e) f = Inl e" "bind_err (Inr x) f = f x"
  by (simp_all add: bind_err_def)

lemma bind_err_Inr_iff: "bind_err m f = Inr y \<longleftrightarrow> (\<exists>x. m = Inr x \<and> f x = Inr y)"
  by (cases m) simp_all

lemma in_irange [simp]: "x \<in> set (irange n) \<longleftrightarrow> 0 \<le> x \<and> x < n"
proof
  assume "x \<in> set (irange n)"
  then obtain m where "m < nat n" "x = int m" by (auto simp: irange_def)
  then show "0 \<le> x \<and> x < n" by simp
next
  assume "0 \<le> x \<and> x < n"
  then have "nat x < nat n" "x = int (nat x)" by simp_all
  then show "x \<in> set (irange n)" unfolding irange_def by (metis atLeast0LessThan imageI lessThan_iff set_map set_upt)
qed

lemma irange_nonpos [simp]: "n \<le> 0 \<Longrightarrow> irange n = []"
  by (simp add: irange_def)

lemma irange_Suc: "0 \<le> n \<Longrightarrow> irange (n + 1) = irange n @ [n]"
  by (simp add: irange_def nat_add_distrib)

lemma for_each_append:
  "for_each (xs @ ys) body s = bind_err (for_each xs body s) (for_each ys body)"
proof (induction xs arbitrary: s)
  case Nil
  show ?case by simp
next
  case (Cons x xs)
  show ?case by (cases "body x s") (simp_all add: Cons.IH)
qed

lemma for_each_inv:
  assumes "for_each xs body s = Inr s'" and "P s"
    and "\<And>x t t'. x \<in> set xs \<Longrightarrow> P t \<Longrightarrow> body x t = Inr t' \<Longrightarrow> P t'"
  shows "P s'"
  using assms
proof (induction xs arbitrary: s)
  case Nil
  then show ?case by simp
next
  case (Cons x xs)
  from Cons.prems(1) obtain t where t: "body x s = Inr t" "for_each xs body t = Inr s'"
    by (auto simp: bind_err_Inr_iff)
  have "P t" using Cons.prems(3) [of x s t] Cons.prems(2) t(1) by simp
  moreover have "\<And>y u u'. y \<in> set xs \<Longrightarrow> P u \<Longrightarrow> body y u = Inr u' \<Longrightarrow> P u'"
    by (rule Cons.prems(3)) simp_all
  ultimately show ?case using Cons.IH [OF t(2)] by blast
qed

lemma for_each_total:
  assumes "P s"
    and "\<And>x t. x \<in> set xs \<Longrightarrow> P t \<Longrightarrow> \<exists>t'. body x t = Inr t' \<and> P t'"
  shows "\<exists>s'. for_each xs body s = Inr s' \<and> P s'"
  using assms
proof (induction xs arbitrary: s)
  case Nil
  then show ?case by simp
next
  case (Cons x xs)
  from Cons.prems obtain t where t: "body x s = Inr t" "P t" by fastforce
  from Cons.IH [OF t(2)] Cons.prems(2) obtain s' where "for_each xs body t = Inr s'" "P s'"
    by auto
  then show ?case using t by simp
qed

text \<open>An invariant indexed by the set of work items done so far.\<close>

lemma for_each_union:
  assumes "J S s"
    and "\<And>x T t. x \<in> set xs \<Longrightarrow> J T t \<Longrightarrow> \<exists>t'. body x t = Inr t' \<and> J (T \<union> F x) t'"
  shows "\<exists>s'. for_each xs body s = Inr s' \<and> J (S \<union> (\<Union>x\<in>set xs. F x)) s'"
  using assms
proof (induction xs arbitrary: S s)
  case Nil
  then show ?case by simp
next
  case (Cons x xs)
  from Cons.prems obtain t where t: "body x s = Inr t" "J (S \<union> F x) t" by fastforce
  from Cons.IH [OF t(2)] Cons.prems(2)
  obtain s' where s': "for_each xs body t = Inr s'" "J (S \<union> F x \<union> (\<Union>x\<in>set xs. F x)) s'"
    by auto
  have "S \<union> F x \<union> (\<Union>x\<in>set xs. F x) = S \<union> (\<Union>y\<in>set (x # xs). F y)" by auto
  then show ?case using t s' by simp
qed

lemma for_each_trace:
  assumes "for_each xs body s = Inr s'"
    and "\<And>x t t'. x \<in> set xs \<Longrightarrow> body x t = Inr t' \<Longrightarrow> tr t' = tr t @ T x"
  shows "tr s' = tr s @ concat (map T xs)"
  using assms
proof (induction xs arbitrary: s)
  case Nil
  then show ?case by simp
next
  case (Cons x xs)
  from Cons.prems(1) obtain t where t: "body x s = Inr t" "for_each xs body t = Inr s'"
    by (auto simp: bind_err_Inr_iff)
  have "tr t = tr s @ T x" using Cons.prems(2) t(1) by simp
  moreover have "tr s' = tr t @ concat (map T xs)" using Cons.IH [OF t(2)] Cons.prems(2) by simp
  ultimately show ?case by simp
qed

lemma for_each_cong:
  assumes "\<And>x t. x \<in> set xs \<Longrightarrow> f x t = g x t"
  shows "for_each xs f s = for_each xs g s"
  using assms
proof (induction xs arbitrary: s)
  case Nil
  show ?case by simp
next
  case (Cons x xs)
  have "f x s = g x s" by (rule Cons.prems) simp
  moreover have "for_each xs f t = for_each xs g t" for t
    by (rule Cons.IH, rule Cons.prems) simp
  ultimately show ?case by (cases "g x s") simp_all
qed

text \<open>A loop with a step that fails in every state does not return.\<close>

lemma for_each_fails:
  assumes "x \<in> set xs" and "\<And>t. body x t = Inl e"
    and "\<And>y t e'. y \<in> set xs \<Longrightarrow> body y t = Inl e' \<Longrightarrow> e' = e"
  shows "for_each xs body s = Inl e"
  using assms
proof (induction xs arbitrary: s)
  case Nil
  then show ?case by simp
next
  case (Cons y ys)
  show ?case
  proof (cases "body y s")
    case (Inl e')
    have "e' = e" by (rule Cons.prems(3) [of y s]) (simp_all add: Inl)
    then show ?thesis using Inl by simp
  next
    case (Inr t)
    have "x \<noteq> y" using Inr Cons.prems(2) [of s] by auto
    then have x: "x \<in> set ys" using Cons.prems(1) by simp
    have "for_each ys body t = Inl e"
      by (rule Cons.IH [OF x Cons.prems(2)], rule Cons.prems(3)) simp_all
    then show ?thesis using Inr by simp
  qed
qed

lemma for_each_error:
  assumes "for_each xs body s = Inl e"
  shows "\<exists>x t. x \<in> set xs \<and> body x t = Inl e"
  using assms
proof (induction xs arbitrary: s)
  case Nil
  then show ?case by simp
next
  case (Cons y ys)
  show ?case
  proof (cases "body y s")
    case (Inl e')
    then have "body y s = Inl e" using Cons.prems by simp
    then show ?thesis by auto
  next
    case (Inr t)
    then have "for_each ys body t = Inl e" using Cons.prems by simp
    from Cons.IH [OF this] show ?thesis by auto
  qed
qed

lemma for_each_first_fails:
  assumes "0 < n" and "body 0 s = Inl e"
  shows "for_each (irange n) body s = Inl e"
proof -
  have "0 < nat n" using assms(1) by simp
  then have "[0..<nat n] = 0 # [Suc 0..<nat n]" by (rule upt_conv_Cons)
  then have "irange n = 0 # map int [Suc 0..<nat n]" by (simp add: irange_def)
  then show ?thesis using assms(2) by simp
qed

subsection \<open>32-bit arithmetic\<close>

lemma int32_id: "- 2147483648 \<le> x \<Longrightarrow> x \<le> 2147483647 \<Longrightarrow> int32 x = x"
  by (simp add: int32_def)

lemma int32_mod: "int32 x mod 4294967296 = x mod 4294967296"
proof -
  have "((x + 2147483648) mod 4294967296 - 2147483648) mod 4294967296 =
        (x + 2147483648 - 2147483648) mod 4294967296"
    by (rule mod_diff_left_eq)
  then show ?thesis by (simp add: int32_def)
qed

lemma int32_cong: "x mod 4294967296 = y mod 4294967296 \<Longrightarrow> int32 x = int32 y"
proof -
  assume "x mod 4294967296 = y mod 4294967296"
  then have "(x + 2147483648) mod 4294967296 = (y + 2147483648) mod 4294967296"
    by (rule mod_add_cong) simp
  then show ?thesis by (simp add: int32_def)
qed

lemma add_int_int32: "add_int (int32 x) (int32 y) = int32 (x + y)"
  unfolding add_int_def by (rule int32_cong, rule mod_add_cong) (rule int32_mod)+

lemma mul_int_int32: "mul_int (int32 x) (int32 y) = int32 (x * y)"
  unfolding mul_int_def by (rule int32_cong, rule mod_mult_cong) (rule int32_mod)+

lemma add_int_int32_left: "add_int (int32 x) y = int32 (x + y)"
  unfolding add_int_def by (rule int32_cong, rule mod_add_cong) (rule int32_mod refl)+

lemma add_int_int32_right: "add_int x (int32 y) = int32 (x + y)"
  unfolding add_int_def by (rule int32_cong, rule mod_add_cong) (rule int32_mod refl)+

lemma mul_int_int32_left: "mul_int (int32 x) y = int32 (x * y)"
  unfolding mul_int_def by (rule int32_cong, rule mod_mult_cong) (rule int32_mod refl)+

text \<open>The two indices of the copy loops are the spec's formulas, reduced to 32 bits.\<close>

lemma index_3d_int32:
  "add_int (add_int i (mul_int j MXP)) (mul_int (mul_int k MXP) MYP) =
   int32 (index3D MXP MYP i j k)"
proof -
  have "add_int (add_int i (mul_int j MXP)) (mul_int (mul_int k MXP) MYP) =
        add_int (add_int i (int32 (j * MXP))) (mul_int (int32 (k * MXP)) MYP)"
    by (simp only: mul_int_def)
  also have "\<dots> = add_int (int32 (i + j * MXP)) (int32 (k * MXP * MYP))"
    by (simp only: add_int_int32_right mul_int_int32_left)
  also have "\<dots> = int32 (i + j * MXP + k * MXP * MYP)" by (rule add_int_int32)
  finally show ?thesis by (simp only: index3D_def)
qed

lemma index_4d_int32:
  "add_int a (mul_int (int32 (index3D MXP MYP i j k)) Q) = int32 (index4D Q MXP MYP i j k a)"
proof -
  have "add_int a (mul_int (int32 (index3D MXP MYP i j k)) Q) =
        add_int a (int32 (index3D MXP MYP i j k * Q))"
    by (simp only: mul_int_int32_left)
  also have "\<dots> = int32 (a + index3D MXP MYP i j k * Q)" by (rule add_int_int32_right)
  finally show ?thesis by (simp only: index4D_def)
qed

lemma padded_int32: "padded nn M = int32 (nn + M + nn)"
  unfolding padded_def by (simp only: add_int_def [of nn M] add_int_int32_left)

lemma padded_voxels_int32:
  "padded_voxels nn MX MY MZ = int32 ((nn+MX+nn) * (nn+MY+nn) * (nn+MZ+nn))"
proof -
  have "padded_voxels nn MX MY MZ =
        mul_int (mul_int (int32 (nn+MX+nn)) (int32 (nn+MY+nn))) (int32 (nn+MZ+nn))"
    by (simp only: padded_voxels_def Let_def padded_int32)
  also have "\<dots> = mul_int (int32 ((nn+MX+nn) * (nn+MY+nn))) (int32 (nn+MZ+nn))"
    by (simp only: mul_int_int32)
  also have "\<dots> = int32 ((nn+MX+nn) * (nn+MY+nn) * (nn+MZ+nn))" by (rule mul_int_int32)
  finally show ?thesis .
qed

text \<open>Sizes that fit an \<^verbatim>\<open>int\<close> are computed exactly.\<close>

lemma sizes_fit:
  assumes "0 \<le> nn" "0 \<le> MX" "0 \<le> MY" "0 \<le> MZ"
    and "1 \<le> nn+MX+nn" "1 \<le> nn+MY+nn" "1 \<le> nn+MZ+nn"
    and "(nn+MX+nn) * (nn+MY+nn) * (nn+MZ+nn) \<le> 2147483647"
  shows "padded nn MX = nn+MX+nn" "padded nn MY = nn+MY+nn" "padded nn MZ = nn+MZ+nn"
    and "padded_voxels nn MX MY MZ = (nn+MX+nn) * (nn+MY+nn) * (nn+MZ+nn)"
proof -
  let ?X = "nn+MX+nn" and ?Y = "nn+MY+nn" and ?Z = "nn+MZ+nn"
  have "?X * 1 \<le> ?X * ?Y" using assms(5,6) by (intro mult_left_mono) simp_all
  then have xy: "?X \<le> ?X * ?Y" by (simp only: mult_1_right)
  have "1 * ?Y \<le> ?X * ?Y" using assms(5,6) by (intro mult_right_mono) simp_all
  then have yx: "?Y \<le> ?X * ?Y" by (simp only: mult_1_left)
  have p: "1 \<le> ?X * ?Y" using xy assms(5) by linarith
  have "?X * ?Y * 1 \<le> ?X * ?Y * ?Z" using p assms(7) by (intro mult_left_mono) simp_all
  then have xyz: "?X * ?Y \<le> ?X * ?Y * ?Z" by (simp only: mult_1_right)
  have "1 * ?Z \<le> ?X * ?Y * ?Z" using p assms(7) by (intro mult_right_mono) simp_all
  then have zz: "?Z \<le> ?X * ?Y * ?Z" by (simp only: mult_1_left)
  have x: "?X \<le> 2147483647" using xy xyz assms(8) by linarith
  have y: "?Y \<le> 2147483647" using yx xyz assms(8) by linarith
  have z: "?Z \<le> 2147483647" using zz assms(8) by linarith
  have x0: "- 2147483648 \<le> ?X" using assms(5) by linarith
  have y0: "- 2147483648 \<le> ?Y" using assms(6) by linarith
  have z0: "- 2147483648 \<le> ?Z" using assms(7) by linarith
  show "padded nn MX = ?X" unfolding padded_int32 by (rule int32_id [OF x0 x])
  show "padded nn MY = ?Y" unfolding padded_int32 by (rule int32_id [OF y0 y])
  show "padded nn MZ = ?Z" unfolding padded_int32 by (rule int32_id [OF z0 z])
  have "- 2147483648 \<le> ?X * ?Y * ?Z" using xyz p by linarith
  then show "padded_voxels nn MX MY MZ = ?X * ?Y * ?Z"
    unfolding padded_voxels_int32 using assms(8) by (rule int32_id)
qed

subsection \<open>Index arithmetic\<close>

lemma index3D_bounds:
  assumes "0 \<le> i" "i < MXP" "0 \<le> j" "j < MYP" "0 \<le> k" "k < MZP"
  shows "0 \<le> index3D MXP MYP i j k" and "index3D MXP MYP i j k < MXP*MYP*MZP"
proof -
  have p: "0 < MXP" "0 < MYP" using assms by auto
  have "0 \<le> j*MXP" "0 \<le> k*MXP*MYP" using assms p by simp_all
  then show "0 \<le> index3D MXP MYP i j k" using assms by (simp add: index3D_def)
  have "j + 1 \<le> MYP" using assms by simp
  then have "(j + 1) * MXP \<le> MYP * MXP" using p by (intro mult_right_mono) simp_all
  then have a: "i + j*MXP < MXP*MYP" using assms by (simp add: algebra_simps)
  have "k + 1 \<le> MZP" using assms by simp
  then have "(k + 1) * (MXP*MYP) \<le> MZP * (MXP*MYP)" using p by (intro mult_right_mono) simp_all
  then show "index3D MXP MYP i j k < MXP*MYP*MZP" using a
    by (simp add: index3D_def algebra_simps)
qed

lemma index3D_x:
  assumes "0 \<le> i" "i < MXP"
  shows "index3D MXP MYP i j k mod MXP = i"
proof -
  have "index3D MXP MYP i j k = i + MXP * (j + k*MYP)" by (simp add: index3D_def algebra_simps)
  then show ?thesis using assms by simp
qed

lemma index3D_y:
  assumes "0 \<le> i" "i < MXP" "0 \<le> j" "j < MYP"
  shows "(index3D MXP MYP i j k div MXP) mod MYP = j"
proof -
  have "index3D MXP MYP i j k = i + MXP * (j + k*MYP)" by (simp add: index3D_def algebra_simps)
  then have "index3D MXP MYP i j k div MXP = j + k*MYP" using assms by simp
  then show ?thesis using assms by simp
qed

lemma index3D_z:
  assumes "0 \<le> i" "i < MXP" "0 \<le> j" "j < MYP"
  shows "index3D MXP MYP i j k div (MXP*MYP) = k"
proof -
  have "index3D MXP MYP i j k = i + MXP * (j + k*MYP)" by (simp add: index3D_def algebra_simps)
  then have "index3D MXP MYP i j k div MXP = j + k*MYP" using assms by simp
  then have "index3D MXP MYP i j k div MXP div MYP = k" using assms by simp
  then show ?thesis using assms by (simp add: zdiv_zmult2_eq)
qed

lemma index3D_inj:
  assumes "index3D MXP MYP i j k = index3D MXP MYP i' j' k'"
    and "0 \<le> i" "i < MXP" "0 \<le> j" "j < MYP" "0 \<le> i'" "i' < MXP" "0 \<le> j'" "j' < MYP"
  shows "i = i' \<and> j = j' \<and> k = k'"
proof -
  let ?n = "index3D MXP MYP i j k" and ?n' = "index3D MXP MYP i' j' k'"
  have "i = ?n mod MXP" using index3D_x [of i MXP MYP j k] assms(2,3) by simp
  also have "\<dots> = ?n' mod MXP" by (simp only: assms(1))
  also have "\<dots> = i'" using index3D_x [of i' MXP MYP j' k'] assms(6,7) by simp
  finally have 1: "i = i'" .
  have "j = (?n div MXP) mod MYP" using index3D_y [of i MXP j MYP k] assms(2-5) by simp
  also have "\<dots> = (?n' div MXP) mod MYP" by (simp only: assms(1))
  also have "\<dots> = j'" using index3D_y [of i' MXP j' MYP k'] assms(6-9) by simp
  finally have 2: "j = j'" .
  have "k = ?n div (MXP*MYP)" using index3D_z [of i MXP j MYP k] assms(2-5) by simp
  also have "\<dots> = ?n' div (MXP*MYP)" by (simp only: assms(1))
  also have "\<dots> = k'" using index3D_z [of i' MXP j' MYP k'] assms(6-9) by simp
  finally have 3: "k = k'" .
  from 1 2 3 show ?thesis by simp
qed

lemma index4D_bounds:
  assumes "0 \<le> i" "i < MXP" "0 \<le> j" "j < MYP" "0 \<le> k" "k < MZP" "0 \<le> a" "a < Q"
  shows "0 \<le> index4D Q MXP MYP i j k a" and "index4D Q MXP MYP i j k a < MXP*MYP*MZP*Q"
proof -
  let ?n = "index3D MXP MYP i j k"
  have n: "0 \<le> ?n" "?n < MXP*MYP*MZP" using index3D_bounds assms by simp_all
  then show "0 \<le> index4D Q MXP MYP i j k a" using assms by (simp add: index4D_def)
  have "?n + 1 \<le> MXP*MYP*MZP" using n by simp
  then have "(?n + 1) * Q \<le> MXP*MYP*MZP * Q" using assms by (intro mult_right_mono) simp_all
  then show "index4D Q MXP MYP i j k a < MXP*MYP*MZP*Q" using assms
    by (simp add: index4D_def algebra_simps)
qed


lemma for_each3_union:
  assumes "J S s"
    and "\<And>i j k T t. i \<in> set xs \<Longrightarrow> j \<in> set ys \<Longrightarrow> k \<in> set zs \<Longrightarrow> J T t \<Longrightarrow>
           \<exists>t'. body i j k t = Inr t' \<and> J (T \<union> F i j k) t'"
  shows "\<exists>s'. for_each xs (\<lambda>i. for_each ys (\<lambda>j. for_each zs (body i j))) s = Inr s' \<and>
              J (S \<union> (\<Union>i\<in>set xs. \<Union>j\<in>set ys. \<Union>k\<in>set zs. F i j k)) s'"
proof (rule for_each_union [where J = J and F = "\<lambda>i. \<Union>j\<in>set ys. \<Union>k\<in>set zs. F i j k", OF assms(1)])
  fix i T t
  assume i: "i \<in> set xs" and T: "J T t"
  show "\<exists>t'. for_each ys (\<lambda>j. for_each zs (body i j)) t = Inr t' \<and>
              J (T \<union> (\<Union>j\<in>set ys. \<Union>k\<in>set zs. F i j k)) t'"
  proof (rule for_each_union [where J = J and F = "\<lambda>j. \<Union>k\<in>set zs. F i j k", OF T])
    fix j U u
    assume j: "j \<in> set ys" and U: "J U u"
    show "\<exists>t'. for_each zs (body i j) u = Inr t' \<and> J (U \<union> (\<Union>k\<in>set zs. F i j k)) t'"
      by (rule for_each_union [where J = J and F = "F i j", OF U]) (rule assms(2) [OF i j])
  qed
qed

subsection \<open>Repacking\<close>

lemma gather_int32:
  "gather a Q MXP MYP MZP PDF4d PDF3d =
     for_each (irange MXP) (\<lambda>i. for_each (irange MYP) (\<lambda>j. for_each (irange MZP) (\<lambda>k s.
       bind_err (rd PDF4d (int32 (index4D Q MXP MYP i j k a)))
                (wr s (int32 (index3D MXP MYP i j k)))))) PDF3d"
  unfolding gather_def Let_def index_3d_int32 index_4d_int32 ..

lemma scatter_int32:
  "scatter a Q MXP MYP MZP PDF3d PDF4d =
     for_each (irange MXP) (\<lambda>i. for_each (irange MYP) (\<lambda>j. for_each (irange MZP) (\<lambda>k f.
       bind_err (rd PDF3d (int32 (index3D MXP MYP i j k)))
                (wr f (int32 (index4D Q MXP MYP i j k a)))))) PDF4d"
  unfolding scatter_def Let_def index_3d_int32 index_4d_int32 ..

lemma in_box_index3D:
  assumes "in_box MXP MYP MZP i j k"
  shows "0 \<le> index3D MXP MYP i j k" "index3D MXP MYP i j k < MXP*MYP*MZP"
  using assms index3D_bounds [of i MXP j MYP k MZP] by (simp_all add: in_box_def)

lemma in_box_index4D:
  assumes "in_box MXP MYP MZP i j k" "0 \<le> a" "a < Q"
  shows "0 \<le> index4D Q MXP MYP i j k a" "index4D Q MXP MYP i j k a < MXP*MYP*MZP*Q"
  using assms index4D_bounds [of i MXP j MYP k MZP a Q] by (simp_all add: in_box_def)

lemma in_box_irange:
  "i \<in> set (irange MXP) \<Longrightarrow> j \<in> set (irange MYP) \<Longrightarrow> k \<in> set (irange MZP) \<Longrightarrow>
   in_box MXP MYP MZP i j k"
  by (simp add: in_box_def)

lemma in_box_UN:
  "in_box MXP MYP MZP i j k \<Longrightarrow>
   f i j k \<in> (\<Union>i\<in>set (irange MXP). \<Union>j\<in>set (irange MYP). \<Union>k\<in>set (irange MZP). {f i j k})"
  unfolding in_box_def by (intro UN_I [of i] UN_I [of j] UN_I [of k]) simp_all

lemma UN_box_iff:
  "n \<in> (\<Union>i\<in>set (irange MXP). \<Union>j\<in>set (irange MYP). \<Union>k\<in>set (irange MZP). {f i j k}) \<longleftrightarrow>
   (\<exists>i j k. in_box MXP MYP MZP i j k \<and> n = f i j k)"
  unfolding in_box_def by (simp add: Bex_def)

text \<open>In a buffer whose size fits an \<^verbatim>\<open>int\<close> no index of the copy loops wraps around.\<close>

lemma in_box_int32:
  assumes b: "in_box MXP MYP MZP i j k" and a: "0 \<le> a" "a < Q"
    and fit: "MXP*MYP*MZP*Q \<le> 2147483647"
  shows "int32 (index3D MXP MYP i j k) = index3D MXP MYP i j k"
    and "int32 (index4D Q MXP MYP i j k a) = index4D Q MXP MYP i j k a"
proof -
  note n = in_box_index3D [OF b] and m = in_box_index4D [OF b a]
  have "index3D MXP MYP i j k * 1 \<le> index3D MXP MYP i j k * Q"
    using n(1) a by (intro mult_left_mono) simp_all
  then have "index3D MXP MYP i j k \<le> index4D Q MXP MYP i j k a"
    using a by (simp add: index4D_def)
  then show "int32 (index3D MXP MYP i j k) = index3D MXP MYP i j k"
    using n(1) m(2) fit by (intro int32_id) simp_all
  show "int32 (index4D Q MXP MYP i j k a) = index4D Q MXP MYP i j k a"
    using m fit by (intro int32_id) simp_all
qed

lemma gather_index:
  assumes a: "0 \<le> a" "a < Q" and fit: "MXP*MYP*MZP*Q \<le> 2147483647"
  shows "gather a Q MXP MYP MZP PDF4d PDF3d =
     for_each (irange MXP) (\<lambda>i. for_each (irange MYP) (\<lambda>j. for_each (irange MZP) (\<lambda>k s.
       bind_err (rd PDF4d (index4D Q MXP MYP i j k a)) (wr s (index3D MXP MYP i j k))))) PDF3d"
  unfolding gather_int32
proof (intro for_each_cong)
  fix i j k and s :: "'a list"
  assume "i \<in> set (irange MXP)" "j \<in> set (irange MYP)" "k \<in> set (irange MZP)"
  then have b: "in_box MXP MYP MZP i j k" by (rule in_box_irange)
  show "bind_err (rd PDF4d (int32 (index4D Q MXP MYP i j k a)))
                 (wr s (int32 (index3D MXP MYP i j k))) =
        bind_err (rd PDF4d (index4D Q MXP MYP i j k a)) (wr s (index3D MXP MYP i j k))"
    by (simp only: in_box_int32 [OF b a fit])
qed

lemma scatter_index:
  assumes a: "0 \<le> a" "a < Q" and fit: "MXP*MYP*MZP*Q \<le> 2147483647"
  shows "scatter a Q MXP MYP MZP PDF3d PDF4d =
     for_each (irange MXP) (\<lambda>i. for_each (irange MYP) (\<lambda>j. for_each (irange MZP) (\<lambda>k f.
       bind_err (rd PDF3d (index3D MXP MYP i j k)) (wr f (index4D Q MXP MYP i j k a))))) PDF4d"
  unfolding scatter_int32
proof (intro for_each_cong)
  fix i j k and f :: "'a list"
  assume "i \<in> set (irange MXP)" "j \<in> set (irange MYP)" "k \<in> set (irange MZP)"
  then have b: "in_box MXP MYP MZP i j k" by (rule in_box_irange)
  show "bind_err (rd PDF3d (int32 (index3D MXP MYP i j k)))
                 (wr f (int32 (index4D Q MXP MYP i j k a))) =
        bind_err (rd PDF3d (index3D MXP MYP i j k)) (wr f (index4D Q MXP MYP i j k a))"
    by (simp only: in_box_int32 [OF b a fit])
qed

text \<open>An index that wraps around to a negative value ends the copy loop.\<close>

lemma gather_out_of_bounds:
  assumes b: "in_box MXP MYP MZP i j k" and neg: "int32 (index4D Q MXP MYP i j k a) < 0"
  shows "gather a Q MXP MYP MZP PDF4d PDF3d = Inl OutOfBounds"
proof -
  let ?body = "\<lambda>i j k s. bind_err (rd PDF4d (int32 (index4D Q MXP MYP i j k a)))
                 (wr s (int32 (index3D MXP MYP i j k)))"
  have err: "e = OutOfBounds" if "?body x y z s = Inl e" for x y z e and s :: "'a list"
    using that by (cases "rd PDF4d (int32 (index4D Q MXP MYP x y z a))")
      (auto simp: rd_def wr_def split: if_splits)
  have i: "i \<in> set (irange MXP)" and j: "j \<in> set (irange MYP)" and k: "k \<in> set (irange MZP)"
    using b by (simp_all add: in_box_def)
  have errk: "e = OutOfBounds" if "for_each (irange MZP) (?body x y) s = Inl e"
    for x y e and s :: "'a list"
    using for_each_error [OF that] err by blast
  have errj: "e = OutOfBounds"
    if "for_each (irange MYP) (\<lambda>j. for_each (irange MZP) (?body x j)) s = Inl e"
    for x e and s :: "'a list"
    using for_each_error [OF that] errk by blast
  have fk: "for_each (irange MZP) (?body i j) s = Inl OutOfBounds" for s :: "'a list"
  proof (rule for_each_fails [OF k])
    show "?body i j k t = Inl OutOfBounds" for t :: "'a list" using neg by (simp add: rd_def)
  qed (rule err)
  have fj: "for_each (irange MYP) (\<lambda>j. for_each (irange MZP) (?body i j)) s = Inl OutOfBounds"
    for s :: "'a list"
    by (rule for_each_fails [OF j]) (rule fk, rule errk)
  show ?thesis unfolding gather_int32
    by (rule for_each_fails [OF i]) (rule fj, rule errj)
qed

lemma scatter_out_of_bounds:
  assumes b: "in_box MXP MYP MZP i j k" and neg: "int32 (index4D Q MXP MYP i j k a) < 0"
  shows "scatter a Q MXP MYP MZP PDF3d PDF4d = Inl OutOfBounds"
proof -
  let ?body = "\<lambda>i j k f. bind_err (rd PDF3d (int32 (index3D MXP MYP i j k)))
                 (wr f (int32 (index4D Q MXP MYP i j k a)))"
  have err: "e = OutOfBounds" if "?body x y z f = Inl e" for x y z e and f :: "'a list"
    using that by (cases "rd PDF3d (int32 (index3D MXP MYP x y z))")
      (auto simp: rd_def wr_def split: if_splits)
  have i: "i \<in> set (irange MXP)" and j: "j \<in> set (irange MYP)" and k: "k \<in> set (irange MZP)"
    using b by (simp_all add: in_box_def)
  have errk: "e = OutOfBounds" if "for_each (irange MZP) (?body x y) f = Inl e"
    for x y e and f :: "'a list"
    using for_each_error [OF that] err by blast
  have errj: "e = OutOfBounds"
    if "for_each (irange MYP) (\<lambda>j. for_each (irange MZP) (?body x j)) f = Inl e"
    for x e and f :: "'a list"
    using for_each_error [OF that] errk by blast
  have fk: "for_each (irange MZP) (?body i j) f = Inl OutOfBounds" for f :: "'a list"
  proof (rule for_each_fails [OF k])
    show "?body i j k t = Inl OutOfBounds" for t :: "'a list"
      using neg by (cases "rd PDF3d (int32 (index3D MXP MYP i j k))")
        (auto simp: rd_def wr_def split: if_splits)
  qed (rule err)
  have fj: "for_each (irange MYP) (\<lambda>j. for_each (irange MZP) (?body i j)) f = Inl OutOfBounds"
    for f :: "'a list"
    by (rule for_each_fails [OF j]) (rule fk, rule errk)
  show ?thesis unfolding scatter_int32
    by (rule for_each_fails [OF i]) (rule fj, rule errj)
qed

lemma gather_total:
  assumes a: "0 \<le> a" "a < Q"
    and fit: "MXP*MYP*MZP*Q \<le> 2147483647"
    and len3: "length PDF3d = nat (MXP*MYP*MZP)"
    and len4: "nat (MXP*MYP*MZP*Q) \<le> length PDF4d"
  shows "\<exists>s. gather a Q MXP MYP MZP PDF4d PDF3d = Inr s \<and> length s = length PDF3d \<and>
           (\<forall>i j k. in_box MXP MYP MZP i j k \<longrightarrow>
              s ! nat (index3D MXP MYP i j k) = PDF4d ! nat (index4D Q MXP MYP i j k a))"
proof -
  define J where "J S s \<longleftrightarrow> length s = length PDF3d \<and>
      (\<forall>n\<in>S. s ! n = PDF4d ! nat (a + int n * Q))" for S :: "nat set" and s :: "'a list"
  define F where "F i j k = {nat (index3D MXP MYP i j k)}" for i j k :: int
  have J0: "J {} PDF3d" by (simp add: J_def)
  have step: "\<exists>t'. bind_err (rd PDF4d (index4D Q MXP MYP i j k a)) (wr t (index3D MXP MYP i j k)) = Inr t'
                 \<and> J (T \<union> F i j k) t'"
    if "i \<in> set (irange MXP)" "j \<in> set (irange MYP)" "k \<in> set (irange MZP)" "J T t"
    for i j k T t
  proof -
    have b: "in_box MXP MYP MZP i j k" using that by (simp add: in_box_irange)
    let ?n = "index3D MXP MYP i j k" and ?m = "index4D Q MXP MYP i j k a"
    have n: "0 \<le> ?n" "?n < MXP*MYP*MZP" using in_box_index3D [OF b] by simp_all
    have m: "0 \<le> ?m" "?m < MXP*MYP*MZP*Q" using in_box_index4D [OF b a] by simp_all
    have lt: "length t = length PDF3d" using that(4) by (simp add: J_def)
    have rd: "rd PDF4d ?m = Inr (PDF4d ! nat ?m)" using m len4 by (simp add: rd_def)
    have wr: "wr t ?n (PDF4d ! nat ?m) = Inr (t[nat ?n := PDF4d ! nat ?m])"
      using n lt len3 by (simp add: wr_def)
    have m_eq: "?m = a + int (nat ?n) * Q" using n by (simp add: index4D_def)
    have "J (T \<union> F i j k) (t[nat ?n := PDF4d ! nat ?m])"
      unfolding J_def
    proof (intro conjI ballI)
      show "length (t[nat ?n := PDF4d ! nat ?m]) = length PDF3d" using lt by simp
    next
      fix q assume q: "q \<in> T \<union> F i j k"
      show "t[nat ?n := PDF4d ! nat ?m] ! q = PDF4d ! nat (a + int q * Q)"
      proof (cases "q = nat ?n")
        case True
        have "nat ?n < length t" using n lt len3 by simp
        then show ?thesis using True m_eq by simp
      next
        case False
        then have "q \<in> T" using q by (simp add: F_def)
        then show ?thesis using False that(4) by (simp add: J_def)
      qed
    qed
    then show ?thesis using rd wr by simp
  qed
  have "\<exists>s. gather a Q MXP MYP MZP PDF4d PDF3d = Inr s \<and>
     J ({} \<union> (\<Union>i\<in>set (irange MXP). \<Union>j\<in>set (irange MYP). \<Union>k\<in>set (irange MZP). F i j k)) s"
    unfolding gather_index [OF a fit]
    by (rule for_each3_union [where J = J and F = F, OF J0]) (rule step)
  then obtain s where s: "gather a Q MXP MYP MZP PDF4d PDF3d = Inr s"
    and Js: "J ({} \<union> (\<Union>i\<in>set (irange MXP). \<Union>j\<in>set (irange MYP). \<Union>k\<in>set (irange MZP). F i j k)) s"
    by blast
  have all: "s ! n = PDF4d ! nat (a + int n * Q)"
    if "n \<in> (\<Union>i\<in>set (irange MXP). \<Union>j\<in>set (irange MYP). \<Union>k\<in>set (irange MZP). F i j k)" for n
    using Js that unfolding J_def by blast
  have "s ! nat (index3D MXP MYP i j k) = PDF4d ! nat (index4D Q MXP MYP i j k a)"
    if b: "in_box MXP MYP MZP i j k" for i j k
  proof -
    have e: "int (nat (index3D MXP MYP i j k)) = index3D MXP MYP i j k"
      using in_box_index3D(1) [OF b] by simp
    have "nat (index3D MXP MYP i j k) \<in>
          (\<Union>i\<in>set (irange MXP). \<Union>j\<in>set (irange MYP). \<Union>k\<in>set (irange MZP). F i j k)"
      unfolding F_def by (rule in_box_UN [OF b])
    from all [OF this] show ?thesis unfolding index4D_def by (simp only: e)
  qed
  moreover have "length s = length PDF3d" using Js by (simp add: J_def)
  ultimately show ?thesis using s by blast
qed


lemma scatter_total:
  assumes a: "0 \<le> a" "a < Q"
    and fit: "MXP*MYP*MZP*Q \<le> 2147483647"
    and len3: "nat (MXP*MYP*MZP) \<le> length PDF3d"
    and len4: "nat (MXP*MYP*MZP*Q) \<le> length PDF4d"
  shows "\<exists>f. scatter a Q MXP MYP MZP PDF3d PDF4d = Inr f \<and> length f = length PDF4d \<and>
           (\<forall>i j k. in_box MXP MYP MZP i j k \<longrightarrow>
              f ! nat (index4D Q MXP MYP i j k a) = PDF3d ! nat (index3D MXP MYP i j k)) \<and>
           (\<forall>m. (\<forall>i j k. in_box MXP MYP MZP i j k \<longrightarrow> m \<noteq> nat (index4D Q MXP MYP i j k a)) \<longrightarrow>
              f ! m = PDF4d ! m)"
proof -
  define J where "J S f \<longleftrightarrow> length f = length PDF4d \<and>
      (\<forall>n\<in>S. f ! nat (a + int n * Q) = PDF3d ! n) \<and>
      (\<forall>m. (\<forall>n\<in>S. m \<noteq> nat (a + int n * Q)) \<longrightarrow> f ! m = PDF4d ! m)"
    for S :: "nat set" and f :: "'a list"
  define F where "F i j k = {nat (index3D MXP MYP i j k)}" for i j k :: int
  let ?U = "\<Union>i\<in>set (irange MXP). \<Union>j\<in>set (irange MYP). \<Union>k\<in>set (irange MZP). F i j k"
  have J0: "J {} PDF4d" by (simp add: J_def)
  have step: "\<exists>t'. bind_err (rd PDF3d (index3D MXP MYP i j k)) (wr t (index4D Q MXP MYP i j k a)) = Inr t'
                 \<and> J (T \<union> F i j k) t'"
    if "i \<in> set (irange MXP)" "j \<in> set (irange MYP)" "k \<in> set (irange MZP)" "J T t"
    for i j k T t
  proof -
    have b: "in_box MXP MYP MZP i j k" using that by (simp add: in_box_irange)
    let ?n = "index3D MXP MYP i j k" and ?m = "index4D Q MXP MYP i j k a"
    have n: "0 \<le> ?n" "?n < MXP*MYP*MZP" using in_box_index3D [OF b] by simp_all
    have m: "0 \<le> ?m" "?m < MXP*MYP*MZP*Q" using in_box_index4D [OF b a] by simp_all
    have lt: "length t = length PDF4d" using that(4) by (simp add: J_def)
    have rd: "rd PDF3d ?n = Inr (PDF3d ! nat ?n)" using n len3 by (simp add: rd_def)
    have wr: "wr t ?m (PDF3d ! nat ?n) = Inr (t[nat ?m := PDF3d ! nat ?n])"
      using m lt len4 by (simp add: wr_def)
    have m_eq: "?m = a + int (nat ?n) * Q" using n by (simp add: index4D_def)
    have ml: "nat ?m < length t" using m lt len4 by simp
    have "J (T \<union> F i j k) (t[nat ?m := PDF3d ! nat ?n])"
      unfolding J_def
    proof (intro conjI ballI allI impI)
      show "length (t[nat ?m := PDF3d ! nat ?n]) = length PDF4d" using lt by simp
    next
      fix q assume q: "q \<in> T \<union> F i j k"
      show "t[nat ?m := PDF3d ! nat ?n] ! nat (a + int q * Q) = PDF3d ! q"
      proof (cases "q = nat ?n")
        case True
        then show ?thesis using ml m_eq by simp
      next
        case False
        then have qT: "q \<in> T" using q by (simp add: F_def)
        have "int q \<noteq> int (nat ?n)" using False by (simp only: int_int_eq) simp
        moreover have "Q \<noteq> 0" using a by simp
        ultimately have "int q * Q \<noteq> int (nat ?n) * Q" by (simp only: mult_cancel_right) simp
        moreover have "0 \<le> a + int q * Q" "0 \<le> a + int (nat ?n) * Q" using a by simp_all
        ultimately have "nat (a + int q * Q) \<noteq> nat ?m" unfolding m_eq by linarith
        then show ?thesis using qT that(4) by (simp add: J_def)
      qed
    next
      fix r assume r: "\<forall>n\<in>T \<union> F i j k. r \<noteq> nat (a + int n * Q)"
      then have "r \<noteq> nat ?m" unfolding m_eq by (simp add: F_def)
      moreover have "t ! r = PDF4d ! r" using r that(4) by (simp add: J_def)
      ultimately show "t[nat ?m := PDF3d ! nat ?n] ! r = PDF4d ! r" by simp
    qed
    then show ?thesis using rd wr by simp
  qed
  define U where "U = ?U"
  have "\<exists>f. scatter a Q MXP MYP MZP PDF3d PDF4d = Inr f \<and> J ({} \<union> ?U) f"
    unfolding scatter_index [OF a fit]
    by (rule for_each3_union [where J = J and F = F, OF J0]) (rule step)
  then obtain f where f: "scatter a Q MXP MYP MZP PDF3d PDF4d = Inr f" and Jf: "J U f"
    unfolding U_def by auto
  have U: "n \<in> U \<longleftrightarrow> (\<exists>i j k. in_box MXP MYP MZP i j k \<and> n = nat (index3D MXP MYP i j k))" for n
    unfolding U_def F_def by (rule UN_box_iff)
  have Jv: "f ! nat (a + int n * Q) = PDF3d ! n" if "n \<in> U" for n
    using Jf that unfolding J_def by blast
  have Jfr: "f ! m = PDF4d ! m" if "\<forall>n\<in>U. m \<noteq> nat (a + int n * Q)" for m
    using Jf that unfolding J_def by blast
  have val: "f ! nat (index4D Q MXP MYP i j k a) = PDF3d ! nat (index3D MXP MYP i j k)"
    if b: "in_box MXP MYP MZP i j k" for i j k
  proof -
    have e: "int (nat (index3D MXP MYP i j k)) = index3D MXP MYP i j k"
      using in_box_index3D(1) [OF b] by simp
    have "nat (index3D MXP MYP i j k) \<in> U" unfolding U using b by blast
    from Jv [OF this] show ?thesis unfolding index4D_def by (simp only: e)
  qed
  have frame: "f ! m = PDF4d ! m"
    if h: "\<forall>i j k. in_box MXP MYP MZP i j k \<longrightarrow> m \<noteq> nat (index4D Q MXP MYP i j k a)" for m
  proof (rule Jfr, rule ballI)
    fix n assume n: "n \<in> U"
    then obtain i j k where b: "in_box MXP MYP MZP i j k" and e: "n = nat (index3D MXP MYP i j k)"
      unfolding U by blast
    have "int n = index3D MXP MYP i j k" using e in_box_index3D(1) [OF b] by simp
    then have "a + int n * Q = index4D Q MXP MYP i j k a" by (simp add: index4D_def)
    then show "m \<noteq> nat (a + int n * Q)" using h b by simp
  qed
  have "length f = length PDF4d" using Jf by (simp add: J_def)
  then show ?thesis using f val frame by blast
qed

lemma scatter_same:
  assumes a: "0 \<le> a" "a < Q"
    and fit: "MXP*MYP*MZP*Q \<le> 2147483647"
    and len3: "nat (MXP*MYP*MZP) \<le> length PDF3d"
    and len4: "nat (MXP*MYP*MZP*Q) \<le> length PDF4d"
    and same: "\<And>i j k. in_box MXP MYP MZP i j k \<Longrightarrow>
                 PDF3d ! nat (index3D MXP MYP i j k) = PDF4d ! nat (index4D Q MXP MYP i j k a)"
  shows "scatter a Q MXP MYP MZP PDF3d PDF4d = Inr PDF4d"
proof -
  from scatter_total [OF a fit len3 len4] obtain f where
    f: "scatter a Q MXP MYP MZP PDF3d PDF4d = Inr f" and len: "length f = length PDF4d"
    and val: "\<And>i j k. in_box MXP MYP MZP i j k \<Longrightarrow>
                f ! nat (index4D Q MXP MYP i j k a) = PDF3d ! nat (index3D MXP MYP i j k)"
    and frame: "\<And>m. (\<forall>i j k. in_box MXP MYP MZP i j k \<longrightarrow> m \<noteq> nat (index4D Q MXP MYP i j k a)) \<Longrightarrow>
                f ! m = PDF4d ! m"
    by blast
  have "f = PDF4d"
  proof (rule nth_equalityI [OF len])
    fix m assume "m < length f"
    show "f ! m = PDF4d ! m"
    proof (cases "\<exists>i j k. in_box MXP MYP MZP i j k \<and> m = nat (index4D Q MXP MYP i j k a)")
      case True
      then obtain i j k where b: "in_box MXP MYP MZP i j k" and m: "m = nat (index4D Q MXP MYP i j k a)"
        by blast
      show ?thesis unfolding m using val [OF b] same [OF b] by simp
    next
      case False
      then show ?thesis by (intro frame) blast
    qed
  qed
  then show ?thesis using f by simp
qed

subsection \<open>The transport\<close>

lemma wr_Inr: "wr buf p v = Inr buf' \<Longrightarrow> 0 \<le> p \<and> p < int (length buf) \<and> buf' = buf[nat p := v]"
  by (simp add: wr_def split: if_splits)

lemma write_all_frame:
  assumes "write_all buf pvs = Inr buf'"
  shows "length buf' = length buf \<and> (\<forall>n. int n \<notin> fst ` set pvs \<longrightarrow> buf' ! n = buf ! n)"
proof -
  define P where "P b \<longleftrightarrow> length b = length buf \<and> (\<forall>n. int n \<notin> fst ` set pvs \<longrightarrow> b ! n = buf ! n)"
    for b :: "'a list"
  have "P buf'"
  proof (rule for_each_inv [where P = P, OF assms [unfolded write_all_def]])
    show "P buf" by (simp add: P_def)
  next
    fix x t t'
    assume x: "x \<in> set pvs" and t: "P t" and w: "(case x of (p, v) \<Rightarrow> \<lambda>buf. wr buf p v) t = Inr t'"
    obtain p v where xp: "x = (p, v)" by (cases x)
    from w xp have "wr t p v = Inr t'" by simp
    then have t': "0 \<le> p" "t' = t[nat p := v]" using wr_Inr [of t p v t'] by simp_all
    have "t' ! n = buf ! n" if n: "int n \<notin> fst ` set pvs" for n
    proof -
      have "p \<in> fst ` set pvs" using x xp by force
      then have "int n \<noteq> p" using n by blast
      then have "n \<noteq> nat p" using t'(1) by auto
      then show ?thesis using t t'(2) n by (simp add: P_def)
    qed
    then show "P t'" using t t'(2) by (simp add: P_def)
  qed
  then show ?thesis by (simp add: P_def)
qed

lemma MPI_Sendrecv_frame:
  assumes "MPI_Sendrecv w c (buf, tr) = Inr (buf', tr')"
  shows "tr' = tr @ [Sendrecv c]" and "length buf' = length buf"
    and "source c = MPI_PROC_NULL w \<Longrightarrow> buf' = buf"
    and "int n \<notin> set (buffer_addrs (recvbuf c) (recvcount c) (recvtype c)) \<Longrightarrow> buf' ! n = buf ! n"
proof -
  let ?addrs = "buffer_addrs (recvbuf c) (recvcount c) (recvtype c)"
  have main: "tr' = tr @ [Sendrecv c] \<and> length buf' = length buf \<and>
        (source c = MPI_PROC_NULL w \<longrightarrow> buf' = buf) \<and>
        (\<forall>n. int n \<notin> set ?addrs \<longrightarrow> buf' ! n = buf ! n)"
  proof (cases "source c = MPI_PROC_NULL w")
    case True
    then show ?thesis using assms
      by (auto simp: MPI_Sendrecv_def bind_err_Inr_iff split: if_splits)
  next
    case False
    from assms False obtain sent msg where msg: "incoming w (length tr) c sent = Some msg"
      and wa: "write_all buf (zip ?addrs msg) = Inr buf'" and tr': "tr' = tr @ [Sendrecv c]"
      by (auto simp: MPI_Sendrecv_def bind_err_Inr_iff Let_def split: if_splits option.splits)
    from write_all_frame [OF wa] have len: "length buf' = length buf"
      and fr: "\<And>n. int n \<notin> fst ` set (zip ?addrs msg) \<Longrightarrow> buf' ! n = buf ! n" by blast+
    have "fst ` set (zip ?addrs msg) \<subseteq> set ?addrs" by (auto dest: set_zip_leftD)
    then have "\<forall>n. int n \<notin> set ?addrs \<longrightarrow> buf' ! n = buf ! n" using fr by blast
    then show ?thesis using False len tr' by simp
  qed
  from main show "tr' = tr @ [Sendrecv c]" "length buf' = length buf" by simp_all
  from main show "source c = MPI_PROC_NULL w \<Longrightarrow> buf' = buf" by simp
  from main show "int n \<notin> set ?addrs \<Longrightarrow> buf' ! n = buf ! n" by simp
qed

lemma MPI_Sendrecv_null:
  assumes "dest c = MPI_PROC_NULL w" "source c = MPI_PROC_NULL w" "0 \<le> sendcount c" "0 \<le> recvcount c"
  shows "MPI_Sendrecv w c (buf, tr) = Inr (buf, tr @ [Sendrecv c])"
  using assms by (simp add: MPI_Sendrecv_def)

subsection \<open>The elements of the three kinds of faces\<close>

lemma irange_add:
  assumes "0 \<le> m" "0 \<le> n"
  shows "irange (m + n) = irange m @ map (\<lambda>j. j + m) (irange n)"
proof -
  have "map int [0..<a + b] = map int [0..<a] @ map (\<lambda>j. j + int a) (map int [0..<b])" for a b
    by (induction b) simp_all
  from this [of "nat m" "nat n"] show ?thesis
    using assms by (simp add: irange_def nat_add_distrib)
qed

lemma irange_mult:
  assumes "0 \<le> a" "0 \<le> b"
  shows "irange (a * b) = concat (map (\<lambda>k. map (\<lambda>j. j + k * a) (irange a)) (irange b))"
proof -
  have "irange (a * int n) = concat (map (\<lambda>k. map (\<lambda>j. j + k * a) (irange a)) (irange (int n)))" for n
  proof (induction n)
    case 0
    show ?case by (simp add: irange_def)
  next
    case (Suc n)
    have "a * int (Suc n) = a * int n + a" by (simp add: algebra_simps)
    then have "irange (a * int (Suc n)) = irange (a * int n) @ map (\<lambda>j. j + a * int n) (irange a)"
      using irange_add [of "a * int n" a] assms(1) by simp
    moreover have "irange (int (Suc n)) = irange (int n) @ [int n]"
      using irange_Suc [of "int n"] by (simp add: add.commute)
    ultimately show ?case using Suc.IH by (simp add: mult.commute)
  qed
  from this [of "nat b"] show ?thesis using assms(2) by simp
qed

lemma slab_addrs:
  assumes "0 \<le> MXP" "0 \<le> MYP"
  shows "buffer_addrs (index3D MXP MYP 0 0 z) (MXP*MYP) MPI_DOUBLE =
         concat (map (\<lambda>j. map (\<lambda>i. index3D MXP MYP i j z) (irange MXP)) (irange MYP))"
proof -
  have "buffer_addrs (index3D MXP MYP 0 0 z) (MXP*MYP) MPI_DOUBLE =
        map (\<lambda>n. z*MXP*MYP + n) (irange (MXP*MYP))"
    by (simp add: buffer_addrs_def index3D_def concat_map_singleton)
  also have "\<dots> = concat (map (\<lambda>j. map (\<lambda>i. index3D MXP MYP i j z) (irange MXP)) (irange MYP))"
    unfolding irange_mult [OF assms]
    by (simp add: map_concat comp_def index3D_def algebra_simps)
  finally show ?thesis .
qed

lemma x_face_addrs:
  assumes "0 \<le> MYP" "0 \<le> MZP"
  shows "buffer_addrs (index3D MXP MYP x 0 0) 1 (x_normal MXP MYP MZP) =
         concat (map (\<lambda>k. map (\<lambda>j. index3D MXP MYP x j k) (irange MYP)) (irange MZP))"
proof -
  have one: "irange 1 = [0]" by (simp add: irange_def)
  have "buffer_addrs (index3D MXP MYP x 0 0) 1 (x_normal MXP MYP MZP) =
        map (\<lambda>b. x + b * MXP) (irange (MYP*MZP))"
    by (simp add: buffer_addrs_def x_normal_def index3D_def one concat_map_singleton comp_def)
  also have "\<dots> = concat (map (\<lambda>k. map (\<lambda>j. index3D MXP MYP x j k) (irange MYP)) (irange MZP))"
    unfolding irange_mult [OF assms]
    by (simp add: map_concat comp_def index3D_def algebra_simps)
  finally show ?thesis .
qed

lemma y_face_addrs:
  "buffer_addrs (index3D MXP MYP 0 y 0) 1 (y_normal MXP MYP MZP) =
   concat (map (\<lambda>k. map (\<lambda>i. index3D MXP MYP i y k) (irange MXP)) (irange MZP))"
proof -
  have one: "irange 1 = [0]" by (simp add: irange_def)
  show ?thesis
    by (simp add: buffer_addrs_def y_normal_def index3D_def one map_concat comp_def algebra_simps)
qed

subsection \<open>The six calls of a ghost layer\<close>

lemma build_stridex_eq:
  assumes "0 \<le> nn+MY+nn" "0 \<le> nn+MZ+nn"
  shows "build_stridex nn MX MY MZ = Inr (x_normal (nn+MX+nn) (nn+MY+nn) (nn+MZ+nn))"
proof -
  have "0 \<le> (nn+MY+nn) * (nn+MZ+nn)" using assms by simp
  moreover have "MY+nn+nn = nn+MY+nn" "MZ+nn+nn = nn+MZ+nn" "MX+nn+nn = nn+MX+nn" by simp_all
  ultimately show ?thesis
    by (simp only: build_stridex_def MPI_Type_vector_def x_normal_def) simp
qed

lemma build_stridey_eq:
  assumes "0 \<le> nn+MX+nn" "0 \<le> nn+MZ+nn"
  shows "build_stridey nn MX MY MZ = Inr (y_normal (nn+MX+nn) (nn+MY+nn) (nn+MZ+nn))"
proof -
  have "MY+nn+nn = nn+MY+nn" "MZ+nn+nn = nn+MZ+nn" "MX+nn+nn = nn+MX+nn" by simp_all
  moreover have "(nn+MY+nn) * (nn+MX+nn) = (nn+MX+nn) * (nn+MY+nn)" by (rule mult.commute)
  ultimately show ?thesis using assms
    by (simp only: build_stridey_def MPI_Type_vector_def y_normal_def) simp
qed

lemma call_top_eq:
  "call_top nn MX MY MZ cm B T i =
   \<lparr>sendbuf = index3D (nn+MX+nn) (nn+MY+nn) 0 0 (nn + (MZ-1) - i),
    sendcount = (nn+MX+nn) * (nn+MY+nn), sendtype = MPI_DOUBLE, dest = T, sendtag = 111,
    recvbuf = index3D (nn+MX+nn) (nn+MY+nn) 0 0 ((nn - 1) - i),
    recvcount = (nn+MX+nn) * (nn+MY+nn), recvtype = MPI_DOUBLE, source = B, recvtag = 111,
    comm = cm\<rparr>"
  by (simp add: call_top_def index3D_def Let_def)

lemma call_bottom_eq:
  "call_bottom nn MX MY MZ cm B T i =
   \<lparr>sendbuf = index3D (nn+MX+nn) (nn+MY+nn) 0 0 (nn + i),
    sendcount = (nn+MX+nn) * (nn+MY+nn), sendtype = MPI_DOUBLE, dest = B, sendtag = 222,
    recvbuf = index3D (nn+MX+nn) (nn+MY+nn) 0 0 (nn + MZ + i),
    recvcount = (nn+MX+nn) * (nn+MY+nn), recvtype = MPI_DOUBLE, source = T, recvtag = 222,
    comm = cm\<rparr>"
  by (simp add: call_bottom_def index3D_def Let_def)

lemma call_east_eq:
  "call_east nn MX MY MZ cm W E sx i =
   \<lparr>sendbuf = index3D (nn+MX+nn) (nn+MY+nn) (nn + (MX-1) - i) 0 0,
    sendcount = 1, sendtype = sx, dest = E, sendtag = 333,
    recvbuf = index3D (nn+MX+nn) (nn+MY+nn) ((nn - 1) - i) 0 0,
    recvcount = 1, recvtype = sx, source = W, recvtag = 333, comm = cm\<rparr>"
  by (simp add: call_east_def index3D_def Let_def)

lemma call_west_eq:
  "call_west nn MX MY MZ cm W E sx i =
   \<lparr>sendbuf = index3D (nn+MX+nn) (nn+MY+nn) (nn + i) 0 0,
    sendcount = 1, sendtype = sx, dest = W, sendtag = 444,
    recvbuf = index3D (nn+MX+nn) (nn+MY+nn) (nn + MX + i) 0 0,
    recvcount = 1, recvtype = sx, source = E, recvtag = 444, comm = cm\<rparr>"
  by (simp add: call_west_def index3D_def Let_def)

lemma call_north_eq:
  "call_north nn MX MY MZ cm S N sy i =
   \<lparr>sendbuf = index3D (nn+MX+nn) (nn+MY+nn) 0 (nn + (MY-1) - i) 0,
    sendcount = 1, sendtype = sy, dest = N, sendtag = 555,
    recvbuf = index3D (nn+MX+nn) (nn+MY+nn) 0 ((nn - 1) - i) 0,
    recvcount = 1, recvtype = sy, source = S, recvtag = 555, comm = cm\<rparr>"
  by (simp add: call_north_def index3D_def Let_def)

lemma call_south_eq:
  "call_south nn MX MY MZ cm S N sy i =
   \<lparr>sendbuf = index3D (nn+MX+nn) (nn+MY+nn) 0 (nn + i) 0,
    sendcount = 1, sendtype = sy, dest = S, sendtag = 666,
    recvbuf = index3D (nn+MX+nn) (nn+MY+nn) 0 (nn + MY + i) 0,
    recvcount = 1, recvtype = sy, source = N, recvtag = 666, comm = cm\<rparr>"
  by (simp add: call_south_def index3D_def Let_def)

lemmas call_eqs = call_top_eq call_bottom_eq call_east_eq call_west_eq call_north_eq call_south_eq

subsection \<open>Which voxels a face holds\<close>

lemma in_concat_map2:
  "p \<in> set (concat (map (\<lambda>u. map (f u) ys) xs)) \<longleftrightarrow> (\<exists>u\<in>set xs. \<exists>v\<in>set ys. p = f u v)"
  by (induction xs) auto

lemma in_concat_face:
  "p \<in> set (concat (map (\<lambda>u. map (f u) (irange m)) (irange n))) \<longleftrightarrow>
   (\<exists>u v. 0 \<le> u \<and> u < n \<and> 0 \<le> v \<and> v < m \<and> p = f u v)"
  unfolding in_concat_map2 Bex_def in_irange by blast

lemma slab_member:
  assumes "in_box MXP MYP MZP x y z"
    and "index3D MXP MYP x y z \<in> set (buffer_addrs (index3D MXP MYP 0 0 z') (MXP*MYP) MPI_DOUBLE)"
  shows "z = z'"
proof -
  have b: "0 \<le> x" "x < MXP" "0 \<le> y" "y < MYP" using assms(1) by (simp_all add: in_box_def)
  then have "0 \<le> MXP" "0 \<le> MYP" by simp_all
  from assms(2) [unfolded slab_addrs [OF this] in_concat_face]
  obtain j i where "0 \<le> j" "j < MYP" "0 \<le> i" "i < MXP"
    "index3D MXP MYP x y z = index3D MXP MYP i j z'" by blast
  then show ?thesis using index3D_inj [of MXP MYP x y z i j z'] b by simp
qed

lemma x_face_member:
  assumes "in_box MXP MYP MZP x y z" "0 \<le> x'" "x' < MXP"
    and "index3D MXP MYP x y z \<in>
         set (buffer_addrs (index3D MXP MYP x' 0 0) 1 (x_normal MXP MYP MZP))"
  shows "x = x'"
proof -
  have b: "0 \<le> x" "x < MXP" "0 \<le> y" "y < MYP" "0 \<le> z" "z < MZP"
    using assms(1) by (simp_all add: in_box_def)
  then have "0 \<le> MYP" "0 \<le> MZP" by simp_all
  from assms(4) [unfolded x_face_addrs [OF this] in_concat_face]
  obtain k j where "0 \<le> k" "k < MZP" "0 \<le> j" "j < MYP"
    "index3D MXP MYP x y z = index3D MXP MYP x' j k" by blast
  then show ?thesis using index3D_inj [of MXP MYP x y z x' j k] b assms(2,3) by simp
qed

lemma y_face_member:
  assumes "in_box MXP MYP MZP x y z" "0 \<le> y'" "y' < MYP"
    and "index3D MXP MYP x y z \<in>
         set (buffer_addrs (index3D MXP MYP 0 y' 0) 1 (y_normal MXP MYP MZP))"
  shows "y = y'"
proof -
  have b: "0 \<le> x" "x < MXP" "0 \<le> y" "y < MYP" "0 \<le> z" "z < MZP"
    using assms(1) by (simp_all add: in_box_def)
  from assms(4) [unfolded y_face_addrs in_concat_face]
  obtain k i where "0 \<le> k" "k < MZP" "0 \<le> i" "i < MXP"
    "index3D MXP MYP x y z = index3D MXP MYP i y' k" by blast
  then show ?thesis using index3D_inj [of MXP MYP x y z i y' k] b assms(2,3) by simp
qed

subsection \<open>What the exchange engine leaves alone\<close>

lemma call_keeps:
  assumes c: "c \<in> set (layer_calls nn MX MY MZ cm W E S N B T
                        (x_normal (nn+MX+nn) (nn+MY+nn) (nn+MZ+nn))
                        (y_normal (nn+MX+nn) (nn+MY+nn) (nn+MZ+nn)) i)"
    and dims: "0 \<le> MX" "0 \<le> MY" "0 \<le> MZ"
    and i: "0 \<le> i" "i < nn"
    and box: "in_box (nn+MX+nn) (nn+MY+nn) (nn+MZ+nn) x y z"
    and nr: "\<not> refreshed w nn MX MY MZ W E S N B T x y z"
    and src: "source c \<noteq> MPI_PROC_NULL w"
  shows "index3D (nn+MX+nn) (nn+MY+nn) x y z \<notin>
         set (buffer_addrs (recvbuf c) (recvcount c) (recvtype c))"
proof
  let ?X = "nn+MX+nn" and ?Y = "nn+MY+nn" and ?Z = "nn+MZ+nn"
  assume m: "index3D ?X ?Y x y z \<in> set (buffer_addrs (recvbuf c) (recvcount c) (recvtype c))"
  from c consider
      (top) "c = call_top nn MX MY MZ cm B T i"
    | (bottom) "c = call_bottom nn MX MY MZ cm B T i"
    | (east) "c = call_east nn MX MY MZ cm W E (x_normal ?X ?Y ?Z) i"
    | (west) "c = call_west nn MX MY MZ cm W E (x_normal ?X ?Y ?Z) i"
    | (north) "c = call_north nn MX MY MZ cm S N (y_normal ?X ?Y ?Z) i"
    | (south) "c = call_south nn MX MY MZ cm S N (y_normal ?X ?Y ?Z) i"
    unfolding layer_calls_def by auto
  then show False
  proof cases
    case top
    from m have "z = (nn - 1) - i" unfolding top call_top_eq using slab_member [OF box] by simp
    moreover from src have "B \<noteq> MPI_PROC_NULL w" unfolding top call_top_eq by simp
    ultimately show False using nr i by (simp add: refreshed_def)
  next
    case bottom
    from m have "z = nn + MZ + i" unfolding bottom call_bottom_eq using slab_member [OF box] by simp
    moreover from src have "T \<noteq> MPI_PROC_NULL w" unfolding bottom call_bottom_eq by simp
    ultimately show False using nr i by (simp add: refreshed_def)
  next
    case east
    have r: "0 \<le> (nn - 1) - i" "(nn - 1) - i < ?X" using i dims by simp_all
    from m have "x = (nn - 1) - i" unfolding east call_east_eq using x_face_member [OF box r] by simp
    moreover from src have "W \<noteq> MPI_PROC_NULL w" unfolding east call_east_eq by simp
    ultimately show False using nr i by (simp add: refreshed_def)
  next
    case west
    have r: "0 \<le> nn + MX + i" "nn + MX + i < ?X" using i dims by simp_all
    from m have "x = nn + MX + i" unfolding west call_west_eq using x_face_member [OF box r] by simp
    moreover from src have "E \<noteq> MPI_PROC_NULL w" unfolding west call_west_eq by simp
    ultimately show False using nr i by (simp add: refreshed_def)
  next
    case north
    have r: "0 \<le> (nn - 1) - i" "(nn - 1) - i < ?Y" using i dims by simp_all
    from m have "y = (nn - 1) - i" unfolding north call_north_eq using y_face_member [OF box r] by simp
    moreover from src have "S \<noteq> MPI_PROC_NULL w" unfolding north call_north_eq by simp
    ultimately show False using nr i by (simp add: refreshed_def)
  next
    case south
    have r: "0 \<le> nn + MY + i" "nn + MY + i < ?Y" using i dims by simp_all
    from m have "y = nn + MY + i" unfolding south call_south_eq using y_face_member [OF box r] by simp
    moreover from src have "N \<noteq> MPI_PROC_NULL w" unfolding south call_south_eq by simp
    ultimately show False using nr i by (simp add: refreshed_def)
  qed
qed

lemma calls_trace:
  assumes "for_each cs (MPI_Sendrecv w) (buf, tr) = Inr (buf', tr')"
  shows "tr' = tr @ map Sendrecv cs" and "length buf' = length buf"
proof -
  have "snd (buf', tr') = snd (buf, tr) @ concat (map (\<lambda>c. [Sendrecv c]) cs)"
  proof (rule for_each_trace [OF assms])
    fix c t t'
    assume "MPI_Sendrecv w c t = Inr t'"
    then show "snd t' = snd t @ [Sendrecv c]"
      using MPI_Sendrecv_frame(1) [of w c "fst t" "snd t" "fst t'" "snd t'"] by simp
  qed
  then show "tr' = tr @ map Sendrecv cs" by (simp add: concat_map_singleton)
  have "length (fst (buf', tr')) = length buf"
  proof (rule for_each_inv [where P = "\<lambda>st. length (fst st) = length buf", OF assms])
    show "length (fst (buf, tr)) = length buf" by simp
  next
    fix c t t'
    assume "length (fst t) = length buf" "MPI_Sendrecv w c t = Inr t'"
    then show "length (fst t') = length buf"
      using MPI_Sendrecv_frame(2) [of w c "fst t" "snd t" "fst t'" "snd t'"] by simp
  qed
  then show "length buf' = length buf" by simp
qed

lemma layer_frame:
  assumes run: "for_each (layer_calls nn MX MY MZ cm W E S N B T
                        (x_normal (nn+MX+nn) (nn+MY+nn) (nn+MZ+nn))
                        (y_normal (nn+MX+nn) (nn+MY+nn) (nn+MZ+nn)) i)
                  (MPI_Sendrecv w) (buf, tr) = Inr (buf', tr')"
    and dims: "0 \<le> MX" "0 \<le> MY" "0 \<le> MZ"
    and i: "0 \<le> i" "i < nn"
    and box: "in_box (nn+MX+nn) (nn+MY+nn) (nn+MZ+nn) x y z"
    and nr: "\<not> refreshed w nn MX MY MZ W E S N B T x y z"
  shows "buf' ! nat (index3D (nn+MX+nn) (nn+MY+nn) x y z) =
         buf ! nat (index3D (nn+MX+nn) (nn+MY+nn) x y z)"
proof -
  let ?n = "index3D (nn+MX+nn) (nn+MY+nn) x y z"
  have n: "int (nat ?n) = ?n" using in_box_index3D(1) [OF box] by simp
  have "fst (buf', tr') ! nat ?n = buf ! nat ?n"
  proof (rule for_each_inv [where P = "\<lambda>st. fst st ! nat ?n = buf ! nat ?n", OF run])
    show "fst (buf, tr) ! nat ?n = buf ! nat ?n" by simp
  next
    fix c t t'
    assume c: "c \<in> set (layer_calls nn MX MY MZ cm W E S N B T
                        (x_normal (nn+MX+nn) (nn+MY+nn) (nn+MZ+nn))
                        (y_normal (nn+MX+nn) (nn+MY+nn) (nn+MZ+nn)) i)"
      and t: "fst t ! nat ?n = buf ! nat ?n" and s: "MPI_Sendrecv w c t = Inr t'"
    from s have s': "MPI_Sendrecv w c (fst t, snd t) = Inr (fst t', snd t')" by simp
    have "fst t' ! nat ?n = fst t ! nat ?n"
    proof (cases "source c = MPI_PROC_NULL w")
      case True
      then show ?thesis using MPI_Sendrecv_frame(3) [OF s'] by simp
    next
      case False
      have "int (nat ?n) \<notin> set (buffer_addrs (recvbuf c) (recvcount c) (recvtype c))"
        unfolding n by (rule call_keeps [OF c dims i box nr False])
      then show ?thesis by (rule MPI_Sendrecv_frame(4) [OF s'])
    qed
    then show "fst t' ! nat ?n = buf ! nat ?n" using t by simp
  qed
  then show ?thesis by simp
qed

lemma exchange_layers_frame:
  assumes run: "exchange_layers w nn MX MY MZ cm W E S N B T
                  (x_normal (nn+MX+nn) (nn+MY+nn) (nn+MZ+nn))
                  (y_normal (nn+MX+nn) (nn+MY+nn) (nn+MZ+nn)) (buf, tr) = Inr (buf', tr')"
    and dims: "0 \<le> MX" "0 \<le> MY" "0 \<le> MZ"
    and box: "in_box (nn+MX+nn) (nn+MY+nn) (nn+MZ+nn) x y z"
    and nr: "\<not> refreshed w nn MX MY MZ W E S N B T x y z"
  shows "buf' ! nat (index3D (nn+MX+nn) (nn+MY+nn) x y z) =
         buf ! nat (index3D (nn+MX+nn) (nn+MY+nn) x y z)"
proof -
  let ?n = "index3D (nn+MX+nn) (nn+MY+nn) x y z"
  have "fst (buf', tr') ! nat ?n = buf ! nat ?n"
  proof (rule for_each_inv [where P = "\<lambda>st. fst st ! nat ?n = buf ! nat ?n",
        OF run [unfolded exchange_layers_def]])
    show "fst (buf, tr) ! nat ?n = buf ! nat ?n" by simp
  next
    fix i t t'
    assume i: "i \<in> set (irange nn)" and t: "fst t ! nat ?n = buf ! nat ?n"
      and s: "for_each (layer_calls nn MX MY MZ cm W E S N B T
                        (x_normal (nn+MX+nn) (nn+MY+nn) (nn+MZ+nn))
                        (y_normal (nn+MX+nn) (nn+MY+nn) (nn+MZ+nn)) i)
                (MPI_Sendrecv w) t = Inr t'"
    from i have i': "0 \<le> i" "i < nn" by simp_all
    from s have "for_each (layer_calls nn MX MY MZ cm W E S N B T
                        (x_normal (nn+MX+nn) (nn+MY+nn) (nn+MZ+nn))
                        (y_normal (nn+MX+nn) (nn+MY+nn) (nn+MZ+nn)) i)
                (MPI_Sendrecv w) (fst t, snd t) = Inr (fst t', snd t')" by simp
    from layer_frame [OF this dims i' box nr] show "fst t' ! nat ?n = buf ! nat ?n"
      using t by simp
  qed
  then show ?thesis by simp
qed

lemma exchange_layers_trace:
  assumes run: "exchange_layers w nn MX MY MZ cm W E S N B T sx sy (buf, tr) = Inr (buf', tr')"
  shows "tr' = tr @ concat (map (\<lambda>i. map Sendrecv
                 (layer_calls nn MX MY MZ cm W E S N B T sx sy i)) (irange nn))"
    and "length buf' = length buf"
proof -
  have "snd (buf', tr') = snd (buf, tr) @ concat (map (\<lambda>i. map Sendrecv
                 (layer_calls nn MX MY MZ cm W E S N B T sx sy i)) (irange nn))"
  proof (rule for_each_trace [OF run [unfolded exchange_layers_def]])
    fix i t t'
    assume "for_each (layer_calls nn MX MY MZ cm W E S N B T sx sy i) (MPI_Sendrecv w) t = Inr t'"
    then have "for_each (layer_calls nn MX MY MZ cm W E S N B T sx sy i) (MPI_Sendrecv w)
                 (fst t, snd t) = Inr (fst t', snd t')" by simp
    from calls_trace(1) [OF this]
    show "snd t' = snd t @ map Sendrecv (layer_calls nn MX MY MZ cm W E S N B T sx sy i)" .
  qed
  then show "tr' = tr @ concat (map (\<lambda>i. map Sendrecv
                 (layer_calls nn MX MY MZ cm W E S N B T sx sy i)) (irange nn))" by simp
  have "length (fst (buf', tr')) = length buf"
  proof (rule for_each_inv [where P = "\<lambda>st. length (fst st) = length buf",
        OF run [unfolded exchange_layers_def]])
    show "length (fst (buf, tr)) = length buf" by simp
  next
    fix i t t'
    assume l: "length (fst t) = length buf"
      and "for_each (layer_calls nn MX MY MZ cm W E S N B T sx sy i) (MPI_Sendrecv w) t = Inr t'"
    then have "for_each (layer_calls nn MX MY MZ cm W E S N B T sx sy i) (MPI_Sendrecv w)
                 (fst t, snd t) = Inr (fst t', snd t')" by simp
    from calls_trace(2) [OF this] l show "length (fst t') = length buf" by simp
  qed
  then show "length buf' = length buf" by simp
qed

subsection \<open>One component's pass\<close>

lemma build_stridex_alt:
  "build_stridex nn MX MY MZ = MPI_Type_vector ((nn+MY+nn) * (nn+MZ+nn)) 1 (nn+MX+nn)"
proof -
  have "MY+nn+nn = nn+MY+nn" "MZ+nn+nn = nn+MZ+nn" "MX+nn+nn = nn+MX+nn" by simp_all
  then show ?thesis by (simp only: build_stridex_def)
qed

lemma build_stridey_alt:
  "build_stridey nn MX MY MZ = MPI_Type_vector (nn+MZ+nn) (nn+MX+nn) ((nn+MX+nn) * (nn+MY+nn))"
proof -
  have "MY+nn+nn = nn+MY+nn" "MZ+nn+nn = nn+MZ+nn" "MX+nn+nn = nn+MX+nn" by simp_all
  moreover have "(nn+MY+nn) * (nn+MX+nn) = (nn+MX+nn) * (nn+MY+nn)" by (rule mult.commute)
  ultimately show ?thesis by (simp only: build_stridey_def)
qed

lemma build_stridex_Inr:
  "build_stridex nn MX MY MZ = Inr t \<Longrightarrow> t = x_normal (nn+MX+nn) (nn+MY+nn) (nn+MZ+nn)"
  unfolding build_stridex_alt MPI_Type_vector_def x_normal_def by (auto split: if_splits)

lemma build_stridey_Inr:
  "build_stridey nn MX MY MZ = Inr t \<Longrightarrow> t = y_normal (nn+MX+nn) (nn+MY+nn) (nn+MZ+nn)"
  unfolding build_stridey_alt MPI_Type_vector_def y_normal_def by (auto split: if_splits)

text \<open>The steps of a pass that returns.\<close>

lemma component_pass_steps:
  assumes "component_pass w nn Q MX MY MZ cm W E S N B T a (f, s, tr) = Inr (f', s', tr')"
  obtains s1 tr2 where
    "gather a Q (padded nn MX) (padded nn MY) (padded nn MZ) f s = Inr s1"
    "exchange_layers w nn MX MY MZ cm W E S N B T
       (x_normal (nn+MX+nn) (nn+MY+nn) (nn+MZ+nn)) (y_normal (nn+MX+nn) (nn+MY+nn) (nn+MZ+nn))
       (s1, tr @ [Type_commit (x_normal (nn+MX+nn) (nn+MY+nn) (nn+MZ+nn)),
                  Type_commit (y_normal (nn+MX+nn) (nn+MY+nn) (nn+MZ+nn))]) = Inr (s', tr2)"
    "scatter a Q (padded nn MX) (padded nn MY) (padded nn MZ) s' f = Inr f'"
    "tr' = tr2 @ [Type_free (x_normal (nn+MX+nn) (nn+MY+nn) (nn+MZ+nn)),
                  Type_free (y_normal (nn+MX+nn) (nn+MY+nn) (nn+MZ+nn))]"
proof -
  from assms obtain s1 sx sy s2 tr2 f2 where
    g: "gather a Q (padded nn MX) (padded nn MY) (padded nn MZ) f s = Inr s1"
    and bx: "build_stridex nn MX MY MZ = Inr sx" and ty: "build_stridey nn MX MY MZ = Inr sy"
    and ex: "exchange_layers w nn MX MY MZ cm W E S N B T sx sy
               (s1, tr @ [Type_commit sx, Type_commit sy]) = Inr (s2, tr2)"
    and sc: "scatter a Q (padded nn MX) (padded nn MY) (padded nn MZ) s2 f = Inr f2"
    and r: "f' = f2" "s' = s2" "tr' = tr2 @ [Type_free sx, Type_free sy]"
    unfolding component_pass_def Let_def
    by (auto simp: bind_err_Inr_iff split: prod.splits)
  note sx = build_stridex_Inr [OF bx] and sy = build_stridey_Inr [OF ty]
  show ?thesis using g ex sc r unfolding sx sy by (intro that [of s1 tr2]) simp_all
qed

lemma component_pass_trace:
  assumes "component_pass w nn Q MX MY MZ cm W E S N B T a (f, s, tr) = Inr (f', s', tr')"
  shows "tr' = tr @ component_events nn MX MY MZ cm W E S N B T"
proof -
  from assms obtain s1 tr2 where
    ex: "exchange_layers w nn MX MY MZ cm W E S N B T
       (x_normal (nn+MX+nn) (nn+MY+nn) (nn+MZ+nn)) (y_normal (nn+MX+nn) (nn+MY+nn) (nn+MZ+nn))
       (s1, tr @ [Type_commit (x_normal (nn+MX+nn) (nn+MY+nn) (nn+MZ+nn)),
                  Type_commit (y_normal (nn+MX+nn) (nn+MY+nn) (nn+MZ+nn))]) = Inr (s', tr2)"
    and r: "tr' = tr2 @ [Type_free (x_normal (nn+MX+nn) (nn+MY+nn) (nn+MZ+nn)),
                  Type_free (y_normal (nn+MX+nn) (nn+MY+nn) (nn+MZ+nn))]"
    by (rule component_pass_steps)
  from exchange_layers_trace(1) [OF ex] r show ?thesis
    by (simp add: component_events_def Let_def)
qed

lemma index4D_component:
  assumes "0 \<le> a" "a < Q" "0 \<le> b" "b < Q" "a + n * Q = b + n' * (Q::int)"
  shows "a = b"
proof -
  have "a = (a + n * Q) mod Q" using assms(1,2) by simp
  also have "\<dots> = (b + n' * Q) mod Q" by (simp only: assms(5))
  also have "\<dots> = b" using assms(3,4) by simp
  finally show ?thesis .
qed

lemma component_pass_frame:
  assumes run: "component_pass w nn Q MX MY MZ cm W E S N B T a (f, s, tr) = Inr (f', s', tr')"
    and a: "0 \<le> a" "a < Q"
    and dims: "0 \<le> MX" "0 \<le> MY" "0 \<le> MZ"
    and ext: "padded nn MX = nn+MX+nn" "padded nn MY = nn+MY+nn" "padded nn MZ = nn+MZ+nn"
    and fit: "(nn+MX+nn)*(nn+MY+nn)*(nn+MZ+nn)*Q \<le> 2147483647"
    and len3: "length s = nat ((nn+MX+nn)*(nn+MY+nn)*(nn+MZ+nn))"
    and len4: "nat ((nn+MX+nn)*(nn+MY+nn)*(nn+MZ+nn)*Q) \<le> length f"
  shows "length f' = length f" and "length s' = length s"
    and "in_box (nn+MX+nn) (nn+MY+nn) (nn+MZ+nn) x y z \<Longrightarrow>
         \<not> refreshed w nn MX MY MZ W E S N B T x y z \<Longrightarrow> 0 \<le> b \<Longrightarrow> b < Q \<Longrightarrow>
         f' ! nat (index4D Q (nn+MX+nn) (nn+MY+nn) x y z b) =
         f ! nat (index4D Q (nn+MX+nn) (nn+MY+nn) x y z b)"
proof -
  let ?X = "nn+MX+nn" and ?Y = "nn+MY+nn" and ?Z = "nn+MZ+nn"
  from run obtain s1 tr2 where
    g0: "gather a Q (padded nn MX) (padded nn MY) (padded nn MZ) f s = Inr s1"
    and ex: "exchange_layers w nn MX MY MZ cm W E S N B T (x_normal ?X ?Y ?Z) (y_normal ?X ?Y ?Z)
       (s1, tr @ [Type_commit (x_normal ?X ?Y ?Z), Type_commit (y_normal ?X ?Y ?Z)]) = Inr (s', tr2)"
    and sc0: "scatter a Q (padded nn MX) (padded nn MY) (padded nn MZ) s' f = Inr f'"
    by (rule component_pass_steps)
  note g = g0 [unfolded ext] and sc = sc0 [unfolded ext]
  from gather_total [OF a fit len3 len4] g have
    l1: "length s1 = length s"
    and v1: "\<And>i j k. in_box ?X ?Y ?Z i j k \<Longrightarrow>
               s1 ! nat (index3D ?X ?Y i j k) = f ! nat (index4D Q ?X ?Y i j k a)"
    by auto
  have l2: "length s' = length s1" by (rule exchange_layers_trace(2) [OF ex])
  have len3': "nat (?X*?Y*?Z) \<le> length s'" using l1 l2 len3 by simp
  from scatter_total [OF a fit len3' len4] sc have
    lf: "length f' = length f"
    and vf: "\<And>i j k. in_box ?X ?Y ?Z i j k \<Longrightarrow>
               f' ! nat (index4D Q ?X ?Y i j k a) = s' ! nat (index3D ?X ?Y i j k)"
    and fr: "\<And>m. (\<forall>i j k. in_box ?X ?Y ?Z i j k \<longrightarrow> m \<noteq> nat (index4D Q ?X ?Y i j k a)) \<Longrightarrow>
               f' ! m = f ! m"
    by auto
  show "length f' = length f" by (rule lf)
  show "length s' = length s" using l1 l2 by simp
  show "f' ! nat (index4D Q ?X ?Y x y z b) = f ! nat (index4D Q ?X ?Y x y z b)"
    if box: "in_box ?X ?Y ?Z x y z" and nr: "\<not> refreshed w nn MX MY MZ W E S N B T x y z"
      and b: "0 \<le> b" "b < Q"
  proof (cases "b = a")
    case True
    have "f' ! nat (index4D Q ?X ?Y x y z a) = s' ! nat (index3D ?X ?Y x y z)" by (rule vf [OF box])
    also have "\<dots> = s1 ! nat (index3D ?X ?Y x y z)"
      by (rule exchange_layers_frame [OF ex dims box nr])
    also have "\<dots> = f ! nat (index4D Q ?X ?Y x y z a)" by (rule v1 [OF box])
    finally show ?thesis using True by simp
  next
    case False
    show ?thesis
    proof (rule fr, intro allI impI)
      fix i j k assume u: "in_box ?X ?Y ?Z i j k"
      show "nat (index4D Q ?X ?Y x y z b) \<noteq> nat (index4D Q ?X ?Y i j k a)"
      proof
        assume "nat (index4D Q ?X ?Y x y z b) = nat (index4D Q ?X ?Y i j k a)"
        then have "index4D Q ?X ?Y x y z b = index4D Q ?X ?Y i j k a"
          using in_box_index4D(1) [OF box b] in_box_index4D(1) [OF u a] by simp
        then have "b = a" unfolding index4D_def by (rule index4D_component [OF b a])
        then show False using False by simp
      qed
    qed
  qed
qed

subsection \<open>The whole routine\<close>

lemma new_array_Inr: "new_array w n = Inr s \<Longrightarrow> 0 \<le> n \<and> length s = nat n"
  by (auto simp: new_array_def split: if_splits)

lemma exchangePDF_steps:
  assumes "exchangePDF w nn Q MX MY MZ myid cm W E S N B T PDF4d = Inr (f', tr')"
  obtains s0 s' tr1 where
    "new_array w (padded_voxels nn MX MY MZ) = Inr s0"
    "for_each (irange Q) (component_pass w nn Q MX MY MZ cm W E S N B T)
       (PDF4d, s0, [New (padded_voxels nn MX MY MZ)]) = Inr (f', s', tr1)"
    "tr' = tr1 @ [Delete]"
  using assms unfolding exchangePDF_def Let_def
  by (auto simp: bind_err_Inr_iff split: prod.splits)

lemma exchangePDF_trace:
  assumes "exchangePDF w nn Q MX MY MZ myid cm W E S N B T PDF4d = Inr (f', tr')"
  shows "tr' = [New (padded_voxels nn MX MY MZ)] @
               concat (map (\<lambda>a. component_events nn MX MY MZ cm W E S N B T) (irange Q)) @
               [Delete]"
proof -
  from assms obtain s0 s' tr1 where
    loop: "for_each (irange Q) (component_pass w nn Q MX MY MZ cm W E S N B T)
       (PDF4d, s0, [New (padded_voxels nn MX MY MZ)]) = Inr (f', s', tr1)"
    and r: "tr' = tr1 @ [Delete]"
    by (rule exchangePDF_steps)
  have "snd (snd (f', s', tr1)) =
        snd (snd (PDF4d, s0, [New (padded_voxels nn MX MY MZ)])) @
        concat (map (\<lambda>a. component_events nn MX MY MZ cm W E S N B T) (irange Q))"
  proof (rule for_each_trace [OF loop])
    fix a t t'
    assume "component_pass w nn Q MX MY MZ cm W E S N B T a t = Inr t'"
    then have "component_pass w nn Q MX MY MZ cm W E S N B T a (fst t, fst (snd t), snd (snd t)) =
               Inr (fst t', fst (snd t'), snd (snd t'))" by simp
    then show "snd (snd t') = snd (snd t) @ component_events nn MX MY MZ cm W E S N B T"
      by (rule component_pass_trace)
  qed
  then show ?thesis using r by simp
qed

lemma exchangePDF_frame:
  assumes run: "exchangePDF w nn Q MX MY MZ myid cm W E S N B T PDF4d = Inr (f', tr')"
    and nn: "0 \<le> nn" and dims: "0 \<le> MX" "0 \<le> MY" "0 \<le> MZ"
    and pos: "1 \<le> nn+MX+nn" "1 \<le> nn+MY+nn" "1 \<le> nn+MZ+nn"
    and vol: "(nn+MX+nn)*(nn+MY+nn)*(nn+MZ+nn) \<le> 2147483647"
    and fit: "(nn+MX+nn)*(nn+MY+nn)*(nn+MZ+nn)*Q \<le> 2147483647"
    and len4: "nat ((nn+MX+nn)*(nn+MY+nn)*(nn+MZ+nn)*Q) \<le> length PDF4d"
  shows "length f' = length PDF4d"
    and "in_box (nn+MX+nn) (nn+MY+nn) (nn+MZ+nn) x y z \<Longrightarrow>
         \<not> refreshed w nn MX MY MZ W E S N B T x y z \<Longrightarrow> 0 \<le> b \<Longrightarrow> b < Q \<Longrightarrow>
         f' ! nat (index4D Q (nn+MX+nn) (nn+MY+nn) x y z b) =
         PDF4d ! nat (index4D Q (nn+MX+nn) (nn+MY+nn) x y z b)"
proof -
  let ?X = "nn+MX+nn" and ?Y = "nn+MY+nn" and ?Z = "nn+MZ+nn"
  note ext = sizes_fit(1-3) [OF nn dims pos vol] and pv = sizes_fit(4) [OF nn dims pos vol]
  from run obtain s0 s' tr1 where
    new: "new_array w (?X*?Y*?Z) = Inr s0"
    and loop: "for_each (irange Q) (component_pass w nn Q MX MY MZ cm W E S N B T)
       (PDF4d, s0, [New (?X*?Y*?Z)]) = Inr (f', s', tr1)"
    unfolding pv [symmetric] by (rule exchangePDF_steps)
  have l0: "length s0 = nat (?X*?Y*?Z)" using new_array_Inr [OF new] by simp
  define P where "P st \<longleftrightarrow> length (fst st) = length PDF4d \<and> length (fst (snd st)) = nat (?X*?Y*?Z) \<and>
      (\<forall>x y z b. in_box ?X ?Y ?Z x y z \<and> \<not> refreshed w nn MX MY MZ W E S N B T x y z \<and>
          0 \<le> b \<and> b < Q \<longrightarrow>
          fst st ! nat (index4D Q ?X ?Y x y z b) = PDF4d ! nat (index4D Q ?X ?Y x y z b))"
    for st :: "'a list \<times> 'a list \<times> event list"
  have "P (f', s', tr1)"
  proof (rule for_each_inv [where P = P, OF loop])
    show "P (PDF4d, s0, [New (?X*?Y*?Z)])" using l0 by (simp add: P_def)
  next
    fix a t t'
    assume a: "a \<in> set (irange Q)" and t: "P t"
      and step: "component_pass w nn Q MX MY MZ cm W E S N B T a t = Inr t'"
    from a have a': "0 \<le> a" "a < Q" by simp_all
    from step have step': "component_pass w nn Q MX MY MZ cm W E S N B T a
         (fst t, fst (snd t), snd (snd t)) = Inr (fst t', fst (snd t'), snd (snd t'))" by simp
    have l3: "length (fst (snd t)) = nat (?X*?Y*?Z)" and l4: "nat (?X*?Y*?Z*Q) \<le> length (fst t)"
      using t len4 by (simp_all add: P_def)
    note fr = component_pass_frame [OF step' a' dims ext fit l3 l4]
    have "fst t' ! nat (index4D Q ?X ?Y x y z b) = PDF4d ! nat (index4D Q ?X ?Y x y z b)"
      if "in_box ?X ?Y ?Z x y z" "\<not> refreshed w nn MX MY MZ W E S N B T x y z" "0 \<le> b" "b < Q"
      for x y z b
      using fr(3) [OF that] t that by (simp add: P_def)
    then show "P t'" using fr(1,2) t by (simp add: P_def)
  qed
  then show "length f' = length PDF4d" by (simp add: P_def)
  show "f' ! nat (index4D Q ?X ?Y x y z b) = PDF4d ! nat (index4D Q ?X ?Y x y z b)"
    if "in_box ?X ?Y ?Z x y z" "\<not> refreshed w nn MX MY MZ W E S N B T x y z" "0 \<le> b" "b < Q"
    using \<open>P (f', s', tr1)\<close> that by (simp add: P_def)
qed

subsection \<open>No neighbor on any side\<close>

lemma layer_calls_null:
  assumes c: "c \<in> set (layer_calls nn MX MY MZ cm p p p p p p sx sy i)"
    and "0 \<le> (nn+MX+nn) * (nn+MY+nn)"
  shows "dest c = p \<and> source c = p \<and> 0 \<le> sendcount c \<and> 0 \<le> recvcount c"
  using assms unfolding layer_calls_def call_eqs by auto

lemma exchange_layers_null:
  assumes "0 \<le> (nn+MX+nn) * (nn+MY+nn)"
  shows "\<exists>tr'. exchange_layers w nn MX MY MZ cm (MPI_PROC_NULL w) (MPI_PROC_NULL w)
           (MPI_PROC_NULL w) (MPI_PROC_NULL w) (MPI_PROC_NULL w) (MPI_PROC_NULL w) sx sy (buf, tr) =
         Inr (buf, tr')"
proof -
  let ?p = "MPI_PROC_NULL w"
  have layer: "\<exists>t'. for_each (layer_calls nn MX MY MZ cm ?p ?p ?p ?p ?p ?p sx sy i) (MPI_Sendrecv w) t
                  = Inr t' \<and> fst t' = buf"
    if "fst t = buf" for i and t :: "'a list \<times> event list"
  proof (rule for_each_total [where P = "\<lambda>st. fst st = buf", OF that])
    fix c and u :: "'a list \<times> event list"
    assume c: "c \<in> set (layer_calls nn MX MY MZ cm ?p ?p ?p ?p ?p ?p sx sy i)" and u: "fst u = buf"
    obtain b t where ub: "u = (b, t)" by (cases u)
    from layer_calls_null [OF c assms]
    have "MPI_Sendrecv w c (b, t) = Inr (b, t @ [Sendrecv c])"
      by (intro MPI_Sendrecv_null) simp_all
    then show "\<exists>t'. MPI_Sendrecv w c u = Inr t' \<and> fst t' = buf" using u ub by simp
  qed
  have "\<exists>t'. exchange_layers w nn MX MY MZ cm ?p ?p ?p ?p ?p ?p sx sy (buf, tr) = Inr t' \<and> fst t' = buf"
    unfolding exchange_layers_def
    by (rule for_each_total [where P = "\<lambda>st. fst st = buf"]) (simp, rule layer)
  then show ?thesis by (metis prod.collapse)
qed


lemma component_pass_null:
  assumes a: "0 \<le> a" "a < Q"
    and nonneg: "0 \<le> nn+MX+nn" "0 \<le> nn+MY+nn" "0 \<le> nn+MZ+nn"
    and ext: "padded nn MX = nn+MX+nn" "padded nn MY = nn+MY+nn" "padded nn MZ = nn+MZ+nn"
    and fit: "(nn+MX+nn)*(nn+MY+nn)*(nn+MZ+nn)*Q \<le> 2147483647"
    and len3: "length s = nat ((nn+MX+nn)*(nn+MY+nn)*(nn+MZ+nn))"
    and len4: "nat ((nn+MX+nn)*(nn+MY+nn)*(nn+MZ+nn)*Q) \<le> length f"
  shows "\<exists>s' tr'. component_pass w nn Q MX MY MZ cm (MPI_PROC_NULL w) (MPI_PROC_NULL w)
           (MPI_PROC_NULL w) (MPI_PROC_NULL w) (MPI_PROC_NULL w) (MPI_PROC_NULL w) a (f, s, tr) =
         Inr (f, s', tr') \<and> length s' = length s"
proof -
  let ?X = "nn+MX+nn" and ?Y = "nn+MY+nn" and ?Z = "nn+MZ+nn" and ?p = "MPI_PROC_NULL w"
  from gather_total [OF a fit len3 len4] obtain s1 where
    g: "gather a Q ?X ?Y ?Z f s = Inr s1" and l1: "length s1 = length s"
    and v1: "\<And>i j k. in_box ?X ?Y ?Z i j k \<Longrightarrow>
               s1 ! nat (index3D ?X ?Y i j k) = f ! nat (index4D Q ?X ?Y i j k a)"
    by blast
  have tx: "build_stridex nn MX MY MZ = Inr (x_normal ?X ?Y ?Z)"
    by (rule build_stridex_eq [OF nonneg(2,3)])
  have ty: "build_stridey nn MX MY MZ = Inr (y_normal ?X ?Y ?Z)"
    by (rule build_stridey_eq [OF nonneg(1,3)])
  have "0 \<le> ?X * ?Y" using nonneg by simp
  from exchange_layers_null [OF this] obtain tr2 where
    ex: "exchange_layers w nn MX MY MZ cm ?p ?p ?p ?p ?p ?p (x_normal ?X ?Y ?Z) (y_normal ?X ?Y ?Z)
           (s1, tr @ [Type_commit (x_normal ?X ?Y ?Z), Type_commit (y_normal ?X ?Y ?Z)]) =
         Inr (s1, tr2)" by blast
  have len3': "nat (?X*?Y*?Z) \<le> length s1" using l1 len3 by simp
  have sc: "scatter a Q ?X ?Y ?Z s1 f = Inr f"
    by (rule scatter_same [OF a fit len3' len4]) (rule v1)
  have "component_pass w nn Q MX MY MZ cm ?p ?p ?p ?p ?p ?p a (f, s, tr) =
        Inr (f, s1, tr2 @ [Type_free (x_normal ?X ?Y ?Z), Type_free (y_normal ?X ?Y ?Z)])"
    unfolding component_pass_def Let_def ext
    by (simp only: g tx ty ex sc bind_err_simps prod.case)
  then show ?thesis using l1 by blast
qed

lemma exchangePDF_null:
  assumes nn: "0 \<le> nn" and dims: "0 \<le> MX" "0 \<le> MY" "0 \<le> MZ"
    and pos: "1 \<le> nn+MX+nn" "1 \<le> nn+MY+nn" "1 \<le> nn+MZ+nn"
    and vol: "(nn+MX+nn)*(nn+MY+nn)*(nn+MZ+nn) \<le> 2147483647"
    and fit: "(nn+MX+nn)*(nn+MY+nn)*(nn+MZ+nn)*Q \<le> 2147483647"
    and len4: "nat ((nn+MX+nn)*(nn+MY+nn)*(nn+MZ+nn)*Q) \<le> length PDF4d"
  shows "exchangePDF w nn Q MX MY MZ myid cm (MPI_PROC_NULL w) (MPI_PROC_NULL w)
           (MPI_PROC_NULL w) (MPI_PROC_NULL w) (MPI_PROC_NULL w) (MPI_PROC_NULL w) PDF4d =
         Inr (PDF4d,
              [New ((nn+MX+nn)*(nn+MY+nn)*(nn+MZ+nn))] @
              concat (map (\<lambda>a. component_events nn MX MY MZ cm (MPI_PROC_NULL w) (MPI_PROC_NULL w)
                (MPI_PROC_NULL w) (MPI_PROC_NULL w) (MPI_PROC_NULL w) (MPI_PROC_NULL w)) (irange Q)) @
              [Delete])"
proof -
  let ?X = "nn+MX+nn" and ?Y = "nn+MY+nn" and ?Z = "nn+MZ+nn" and ?p = "MPI_PROC_NULL w"
  let ?s0 = "map (uninitialized w) [0..<nat (?X*?Y*?Z)]"
  note ext = sizes_fit(1-3) [OF nn dims pos vol] and pv = sizes_fit(4) [OF nn dims pos vol]
  have nonneg: "0 \<le> ?X" "0 \<le> ?Y" "0 \<le> ?Z" using pos by simp_all
  have "0 \<le> ?X*?Y*?Z" using nonneg by simp
  then have new: "new_array w (?X*?Y*?Z) = Inr ?s0" by (simp add: new_array_def)
  define P where "P st \<longleftrightarrow> fst st = PDF4d \<and> length (fst (snd st)) = nat (?X*?Y*?Z)"
    for st :: "'a list \<times> 'a list \<times> event list"
  have "\<exists>st. for_each (irange Q) (component_pass w nn Q MX MY MZ cm ?p ?p ?p ?p ?p ?p)
              (PDF4d, ?s0, [New (?X*?Y*?Z)]) = Inr st \<and> P st"
  proof (rule for_each_total [where P = P])
    show "P (PDF4d, ?s0, [New (?X*?Y*?Z)])" by (simp add: P_def)
  next
    fix a and t :: "'a list \<times> 'a list \<times> event list"
    assume a: "a \<in> set (irange Q)" and t: "P t"
    obtain f s tr where tt: "t = (f, s, tr)" by (cases t)
    from a have a': "0 \<le> a" "a < Q" by simp_all
    have f: "f = PDF4d" and l3: "length s = nat (?X*?Y*?Z)" using t tt by (simp_all add: P_def)
    from component_pass_null [OF a' nonneg ext fit l3 len4 [folded f]]
    obtain s' tr' where "component_pass w nn Q MX MY MZ cm ?p ?p ?p ?p ?p ?p a (f, s, tr) =
         Inr (f, s', tr')" "length s' = length s" by blast
    then show "\<exists>t'. component_pass w nn Q MX MY MZ cm ?p ?p ?p ?p ?p ?p a t = Inr t' \<and> P t'"
      using tt f l3 by (simp add: P_def)
  qed
  then obtain s' tr1 where
    loop: "for_each (irange Q) (component_pass w nn Q MX MY MZ cm ?p ?p ?p ?p ?p ?p)
              (PDF4d, ?s0, [New (?X*?Y*?Z)]) = Inr (PDF4d, s', tr1)"
    unfolding P_def by (metis fst_conv prod.collapse)
  have run: "exchangePDF w nn Q MX MY MZ myid cm ?p ?p ?p ?p ?p ?p PDF4d = Inr (PDF4d, tr1 @ [Delete])"
    unfolding exchangePDF_def Let_def pv
    by (simp only: new loop bind_err_simps prod.case)
  from exchangePDF_trace [OF run] run show ?thesis by (simp add: pv)
qed

subsection \<open>Beyond the range of an \<^verbatim>\<open>int\<close>\<close>

text \<open>
  A call whose first gather computes an index that wraps around to a negative value reads
  outside the field.
\<close>

lemma component_pass_gather_fails:
  assumes "gather a Q (padded nn MX) (padded nn MY) (padded nn MZ) f s = Inl e"
  shows "component_pass w nn Q MX MY MZ cm W E S N B T a (f, s, tr) = Inl e"
  unfolding component_pass_def Let_def by (simp only: assms prod.case bind_err_simps)

lemma exchangePDF_out_of_bounds:
  assumes vol: "0 \<le> padded_voxels nn MX MY MZ" and Q: "0 < Q"
    and box: "in_box (padded nn MX) (padded nn MY) (padded nn MZ) i j k"
    and neg: "int32 (index4D Q (padded nn MX) (padded nn MY) i j k 0) < 0"
  shows "exchangePDF w nn Q MX MY MZ myid cm W E S N B T PDF4d = Inl OutOfBounds"
proof -
  let ?s0 = "map (uninitialized w) [0..<nat (padded_voxels nn MX MY MZ)]"
  have new: "new_array w (padded_voxels nn MX MY MZ) = Inr ?s0"
    using vol by (simp add: new_array_def)
  have "component_pass w nn Q MX MY MZ cm W E S N B T 0
          (PDF4d, ?s0, [New (padded_voxels nn MX MY MZ)]) = Inl OutOfBounds"
    by (rule component_pass_gather_fails, rule gather_out_of_bounds [OF box neg])
  then have "for_each (irange Q) (component_pass w nn Q MX MY MZ cm W E S N B T)
          (PDF4d, ?s0, [New (padded_voxels nn MX MY MZ)]) = Inl OutOfBounds"
    by (rule for_each_first_fails [OF Q])
  then show ?thesis unfolding exchangePDF_def Let_def by (simp only: new bind_err_simps)
qed

subsection \<open>What a trace records\<close>

lemma sendrecv_calls_append: "sendrecv_calls (xs @ ys) = sendrecv_calls xs @ sendrecv_calls ys"
  by (induction xs rule: sendrecv_calls.induct) simp_all

lemma sendrecv_calls_map: "sendrecv_calls (map Sendrecv cs) = cs"
  by (induction cs) simp_all

lemma sendrecv_calls_concat:
  "sendrecv_calls (concat (map f xs)) = concat (map (\<lambda>x. sendrecv_calls (f x)) xs)"
  by (induction xs) (simp_all add: sendrecv_calls_append)

lemma sendrecv_calls_component:
  "sendrecv_calls (component_events nn MX MY MZ cm W E S N B T) =
   concat (map (\<lambda>i. layer_calls nn MX MY MZ cm W E S N B T
                  (x_normal (nn+MX+nn) (nn+MY+nn) (nn+MZ+nn))
                  (y_normal (nn+MX+nn) (nn+MY+nn) (nn+MZ+nn)) i) (irange nn))"
  by (simp add: component_events_def Let_def sendrecv_calls_append sendrecv_calls_concat
      sendrecv_calls_map)

lemma allocations_append: "allocations (xs @ ys) = allocations xs @ allocations ys"
  by (induction xs rule: allocations.induct) simp_all

lemma allocations_map_Sendrecv: "allocations (map Sendrecv cs) = []"
  by (induction cs) simp_all

lemma allocations_concat_Nil:
  "(\<And>x. x \<in> set xs \<Longrightarrow> allocations (f x) = []) \<Longrightarrow> allocations (concat (map f xs)) = []"
  by (induction xs) (simp_all add: allocations_append)

lemma allocations_component: "allocations (component_events nn MX MY MZ cm W E S N B T) = []"
  by (simp add: component_events_def Let_def allocations_append allocations_concat_Nil
      allocations_map_Sendrecv)

lemma releases_append: "releases (xs @ ys) = releases xs + releases ys"
  by (induction xs rule: releases.induct) simp_all

lemma releases_concat_0:
  "(\<And>x. x \<in> set xs \<Longrightarrow> releases (f x) = 0) \<Longrightarrow> releases (concat (map f xs)) = 0"
  by (induction xs) (simp_all add: releases_append)

lemma releases_map_Sendrecv: "releases (map Sendrecv cs) = 0"
  by (induction cs) simp_all

lemma releases_component: "releases (component_events nn MX MY MZ cm W E S N B T) = 0"
  by (simp add: component_events_def Let_def releases_append releases_concat_0
      releases_map_Sendrecv)




subsection \<open>Every address of a call lies in the scratch buffer\<close>

lemma slab_in_bounds:
  assumes "0 \<le> MXP" "0 \<le> MYP" "0 \<le> z" "z < MZP"
    and "p \<in> set (buffer_addrs (index3D MXP MYP 0 0 z) (MXP*MYP) MPI_DOUBLE)"
  shows "0 \<le> p \<and> p < MXP*MYP*MZP"
proof -
  from assms(5) [unfolded slab_addrs [OF assms(1,2)] in_concat_face]
  obtain j i where "0 \<le> j" "j < MYP" "0 \<le> i" "i < MXP" "p = index3D MXP MYP i j z" by blast
  then show ?thesis using index3D_bounds [of i MXP j MYP z MZP] assms(3,4) by simp
qed

lemma x_face_in_bounds:
  assumes "0 \<le> MYP" "0 \<le> MZP" "0 \<le> x" "x < MXP"
    and "p \<in> set (buffer_addrs (index3D MXP MYP x 0 0) 1 (x_normal MXP MYP MZP))"
  shows "0 \<le> p \<and> p < MXP*MYP*MZP"
proof -
  from assms(5) [unfolded x_face_addrs [OF assms(1,2)] in_concat_face]
  obtain k j where "0 \<le> k" "k < MZP" "0 \<le> j" "j < MYP" "p = index3D MXP MYP x j k" by blast
  then show ?thesis using index3D_bounds [of x MXP j MYP k MZP] assms(3,4) by simp
qed

lemma y_face_in_bounds:
  assumes "0 \<le> y" "y < MYP"
    and "p \<in> set (buffer_addrs (index3D MXP MYP 0 y 0) 1 (y_normal MXP MYP MZP))"
  shows "0 \<le> p \<and> p < MXP*MYP*MZP"
proof -
  from assms(3) [unfolded y_face_addrs in_concat_face]
  obtain k i where "0 \<le> k" "k < MZP" "0 \<le> i" "i < MXP" "p = index3D MXP MYP i y k" by blast
  then show ?thesis using index3D_bounds [of i MXP y MYP k MZP] assms(1,2) by simp
qed

lemma call_in_bounds:
  assumes c: "c \<in> set (layer_calls nn MX MY MZ cm W E S N B T
                        (x_normal (nn+MX+nn) (nn+MY+nn) (nn+MZ+nn))
                        (y_normal (nn+MX+nn) (nn+MY+nn) (nn+MZ+nn)) i)"
    and dims: "0 \<le> MX" "0 \<le> MY" "0 \<le> MZ"
    and i: "0 \<le> i" "i < nn"
  shows "\<forall>p\<in>set (buffer_addrs (sendbuf c) (sendcount c) (sendtype c)). 
           0 \<le> p \<and> p < (nn+MX+nn)*(nn+MY+nn)*(nn+MZ+nn)"
    and "\<forall>p\<in>set (buffer_addrs (recvbuf c) (recvcount c) (recvtype c)). 
           0 \<le> p \<and> p < (nn+MX+nn)*(nn+MY+nn)*(nn+MZ+nn)"
    and "0 \<le> sendcount c" and "0 \<le> recvcount c"
proof -
  let ?X = "nn+MX+nn" and ?Y = "nn+MY+nn" and ?Z = "nn+MZ+nn"
  have n: "0 \<le> ?X" "0 \<le> ?Y" "0 \<le> ?Z" using dims i by simp_all
  have r: "0 \<le> nn + (MX-1) - i" "nn + (MX-1) - i < ?X" "0 \<le> (nn-1) - i" "(nn-1) - i < ?X"
    "0 \<le> nn + i" "nn + i < ?X" "0 \<le> nn + MX + i" "nn + MX + i < ?X"
    "0 \<le> nn + (MY-1) - i" "nn + (MY-1) - i < ?Y" "(nn-1) - i < ?Y"
    "nn + i < ?Y" "0 \<le> nn + MY + i" "nn + MY + i < ?Y"
    "0 \<le> nn + (MZ-1) - i" "nn + (MZ-1) - i < ?Z" "(nn-1) - i < ?Z"
    "nn + i < ?Z" "0 \<le> nn + MZ + i" "nn + MZ + i < ?Z"
    using dims i by simp_all
  from c consider
      (top) "c = call_top nn MX MY MZ cm B T i"
    | (bottom) "c = call_bottom nn MX MY MZ cm B T i"
    | (east) "c = call_east nn MX MY MZ cm W E (x_normal ?X ?Y ?Z) i"
    | (west) "c = call_west nn MX MY MZ cm W E (x_normal ?X ?Y ?Z) i"
    | (north) "c = call_north nn MX MY MZ cm S N (y_normal ?X ?Y ?Z) i"
    | (south) "c = call_south nn MX MY MZ cm S N (y_normal ?X ?Y ?Z) i"
    unfolding layer_calls_def by auto
  then have "(\<forall>p\<in>set (buffer_addrs (sendbuf c) (sendcount c) (sendtype c)). 
           0 \<le> p \<and> p < ?X*?Y*?Z) \<and>
        (\<forall>p\<in>set (buffer_addrs (recvbuf c) (recvcount c) (recvtype c)). 
           0 \<le> p \<and> p < ?X*?Y*?Z) \<and> 0 \<le> sendcount c \<and> 0 \<le> recvcount c"
  proof cases
    case top
    have f: "sendbuf c = index3D ?X ?Y 0 0 (nn + (MZ-1) - i)" "sendcount c = ?X * ?Y"
      "sendtype c = MPI_DOUBLE" "recvbuf c = index3D ?X ?Y 0 0 ((nn-1) - i)"
      "recvcount c = ?X * ?Y" "recvtype c = MPI_DOUBLE"
      unfolding top call_top_eq by simp_all
    have "0 \<le> ?X * ?Y" using n by simp
    then show ?thesis unfolding f
      using slab_in_bounds [OF n(1,2) r(15,16)] slab_in_bounds [OF n(1,2) r(3,17)] by blast
  next
    case bottom
    have f: "sendbuf c = index3D ?X ?Y 0 0 (nn + i)" "sendcount c = ?X * ?Y"
      "sendtype c = MPI_DOUBLE" "recvbuf c = index3D ?X ?Y 0 0 (nn + MZ + i)"
      "recvcount c = ?X * ?Y" "recvtype c = MPI_DOUBLE"
      unfolding bottom call_bottom_eq by simp_all
    have "0 \<le> ?X * ?Y" using n by simp
    then show ?thesis unfolding f
      using slab_in_bounds [OF n(1,2) r(5,18)] slab_in_bounds [OF n(1,2) r(19,20)] by blast
  next
    case east
    have f: "sendbuf c = index3D ?X ?Y (nn + (MX-1) - i) 0 0" "sendcount c = 1"
      "sendtype c = x_normal ?X ?Y ?Z" "recvbuf c = index3D ?X ?Y ((nn-1) - i) 0 0"
      "recvcount c = 1" "recvtype c = x_normal ?X ?Y ?Z"
      unfolding east call_east_eq by simp_all
    have "(0::int) \<le> 1" by simp
    then show ?thesis unfolding f
      using x_face_in_bounds [OF n(2,3) r(1,2)] x_face_in_bounds [OF n(2,3) r(3,4)] by blast
  next
    case west
    have f: "sendbuf c = index3D ?X ?Y (nn + i) 0 0" "sendcount c = 1"
      "sendtype c = x_normal ?X ?Y ?Z" "recvbuf c = index3D ?X ?Y (nn + MX + i) 0 0"
      "recvcount c = 1" "recvtype c = x_normal ?X ?Y ?Z"
      unfolding west call_west_eq by simp_all
    have "(0::int) \<le> 1" by simp
    then show ?thesis unfolding f
      using x_face_in_bounds [OF n(2,3) r(5,6)] x_face_in_bounds [OF n(2,3) r(7,8)] by blast
  next
    case north
    have f: "sendbuf c = index3D ?X ?Y 0 (nn + (MY-1) - i) 0" "sendcount c = 1"
      "sendtype c = y_normal ?X ?Y ?Z" "recvbuf c = index3D ?X ?Y 0 ((nn-1) - i) 0"
      "recvcount c = 1" "recvtype c = y_normal ?X ?Y ?Z"
      unfolding north call_north_eq by simp_all
    have "(0::int) \<le> 1" by simp
    then show ?thesis unfolding f
      using y_face_in_bounds [OF r(9,10)] y_face_in_bounds [OF r(3,11)] by blast
  next
    case south
    have f: "sendbuf c = index3D ?X ?Y 0 (nn + i) 0" "sendcount c = 1"
      "sendtype c = y_normal ?X ?Y ?Z" "recvbuf c = index3D ?X ?Y 0 (nn + MY + i) 0"
      "recvcount c = 1" "recvtype c = y_normal ?X ?Y ?Z"
      unfolding south call_south_eq by simp_all
    have "(0::int) \<le> 1" by simp
    then show ?thesis unfolding f
      using y_face_in_bounds [OF r(5,12)] y_face_in_bounds [OF r(13,14)] by blast
  qed
  then show "\<forall>p\<in>set (buffer_addrs (sendbuf c) (sendcount c) (sendtype c)). 
           0 \<le> p \<and> p < ?X*?Y*?Z"
    and "\<forall>p\<in>set (buffer_addrs (recvbuf c) (recvcount c) (recvtype c)). 
           0 \<le> p \<and> p < ?X*?Y*?Z"
    and "0 \<le> sendcount c" and "0 \<le> recvcount c" by blast+
qed

subsection \<open>The only failure left is the transport's\<close>

lemma for_each_safe:
  assumes "P s"
    and "\<And>x t. x \<in> set xs \<Longrightarrow> P t \<Longrightarrow>
           (\<exists>t'. body x t = Inr t' \<and> P t') \<or> (\<exists>e. body x t = Inl e \<and> A e)"
  shows "(\<exists>s'. for_each xs body s = Inr s' \<and> P s') \<or> (\<exists>e. for_each xs body s = Inl e \<and> A e)"
  using assms
proof (induction xs arbitrary: s)
  case Nil
  then show ?case by simp
next
  case (Cons x xs)
  from Cons.prems(2) [of x s] Cons.prems(1)
  consider (ok) t where "body x s = Inr t" "P t" | (err) e where "body x s = Inl e" "A e"
    by auto
  then show ?case
  proof cases
    case ok
    have "(\<exists>s'. for_each xs body t = Inr s' \<and> P s') \<or> (\<exists>e. for_each xs body t = Inl e \<and> A e)"
      by (rule Cons.IH [OF ok(2)]) (rule Cons.prems(2), simp_all)
    then show ?thesis using ok(1) by simp
  next
    case err
    then show ?thesis by simp
  qed
qed

lemma read_all_total:
  assumes "\<forall>p\<in>set ps. 0 \<le> p \<and> p < int (length buf)"
  shows "\<exists>vs. read_all buf ps = Inr vs"
proof -
  have "\<exists>vs. for_each ps (\<lambda>p acc. bind_err (rd buf p) (\<lambda>v. Inr (acc @ [v]))) [] = Inr vs \<and> True"
  proof (rule for_each_total [where P = "\<lambda>_. True"])
    fix p and t :: "'a list"
    assume "p \<in> set ps"
    then have "rd buf p = Inr (buf ! nat p)" using assms by (simp add: rd_def)
    then show "\<exists>t'. bind_err (rd buf p) (\<lambda>v. Inr (t @ [v])) = Inr t' \<and> True" by simp
  qed simp
  then show ?thesis by (simp add: read_all_def)
qed

lemma write_all_total:
  assumes "\<forall>p\<in>fst ` set pvs. 0 \<le> p \<and> p < int (length buf)"
  shows "\<exists>buf'. write_all buf pvs = Inr buf' \<and> length buf' = length buf"
  unfolding write_all_def
proof (rule for_each_total [where P = "\<lambda>b. length b = length buf"])
  fix x and t :: "'a list"
  assume x: "x \<in> set pvs" and t: "length t = length buf"
  obtain p v where xp: "x = (p, v)" by (cases x)
  then have "p \<in> fst ` set pvs" using x by force
  with assms have "0 \<le> p \<and> p < int (length buf)" by (rule bspec)
  then have "0 \<le> p \<and> p < int (length t)" using t by simp
  then show "\<exists>t'. (case x of (p, v) \<Rightarrow> \<lambda>buf. wr buf p v) t = Inr t' \<and> length t' = length buf"
    using t xp by (simp add: wr_def)
qed simp

lemma MPI_Sendrecv_safe:
  assumes s: "\<forall>p\<in>set (buffer_addrs (sendbuf c) (sendcount c) (sendtype c)).
                0 \<le> p \<and> p < int (length buf)"
    and r: "\<forall>p\<in>set (buffer_addrs (recvbuf c) (recvcount c) (recvtype c)).
                0 \<le> p \<and> p < int (length buf)"
    and n: "0 \<le> sendcount c" "0 \<le> recvcount c"
  shows "(\<exists>buf'. MPI_Sendrecv w c (buf, tr) = Inr (buf', tr @ [Sendrecv c]) \<and>
                  length buf' = length buf) \<or>
         (MPI_Sendrecv w c (buf, tr) = Inl MPI_Abort \<and> \<not> transport_delivers w)"
proof -
  let ?addrs = "buffer_addrs (recvbuf c) (recvcount c) (recvtype c)"
  have send: "\<exists>sent. (if dest c = MPI_PROC_NULL w then Inr []
              else read_all buf (buffer_addrs (sendbuf c) (sendcount c) (sendtype c))) = Inr sent"
    using read_all_total [OF s] by simp
  then obtain sent where sent: "(if dest c = MPI_PROC_NULL w then Inr []
              else read_all buf (buffer_addrs (sendbuf c) (sendcount c) (sendtype c))) = Inr sent"
    by blast
  show ?thesis
  proof (cases "source c = MPI_PROC_NULL w")
    case True
    then show ?thesis using n sent by (simp add: MPI_Sendrecv_def)
  next
    case False
    show ?thesis
    proof (cases "incoming w (length tr) c sent")
      case None
      have "\<not> transport_delivers w"
      proof
        assume "transport_delivers w"
        then obtain msg where "incoming w (length tr) c sent = Some msg"
          unfolding transport_delivers_def by blast
        then show False using None by simp
      qed
      then show ?thesis using n sent False None by (simp add: MPI_Sendrecv_def)
    next
      case (Some msg)
      show ?thesis
      proof (cases "length ?addrs < length msg")
        case True
        have "\<not> transport_delivers w"
        proof
          assume "transport_delivers w"
          then obtain m where "incoming w (length tr) c sent = Some m" "length m \<le> length ?addrs"
            unfolding transport_delivers_def by blast
          then show False using Some True by simp
        qed
        then show ?thesis using n sent False Some True by (simp add: MPI_Sendrecv_def)
      next
        case len: False
        have "fst ` set (zip ?addrs msg) \<subseteq> set ?addrs" by (auto dest: set_zip_leftD)
        then have "\<forall>p\<in>fst ` set (zip ?addrs msg). 0 \<le> p \<and> p < int (length buf)"
          using r by blast
        from write_all_total [OF this] obtain buf' where
          "write_all buf (zip ?addrs msg) = Inr buf'" "length buf' = length buf" by blast
        then show ?thesis using n sent False Some len by (simp add: MPI_Sendrecv_def)
      qed
    qed
  qed
qed

lemma exchange_layers_safe:
  assumes dims: "0 \<le> MX" "0 \<le> MY" "0 \<le> MZ"
    and len: "length buf = nat ((nn+MX+nn)*(nn+MY+nn)*(nn+MZ+nn))"
  shows "(\<exists>st. exchange_layers w nn MX MY MZ cm W E S N B T
                 (x_normal (nn+MX+nn) (nn+MY+nn) (nn+MZ+nn))
                 (y_normal (nn+MX+nn) (nn+MY+nn) (nn+MZ+nn)) (buf, tr) = Inr st \<and>
               length (fst st) = length buf) \<or>
         (\<exists>e. exchange_layers w nn MX MY MZ cm W E S N B T
                 (x_normal (nn+MX+nn) (nn+MY+nn) (nn+MZ+nn))
                 (y_normal (nn+MX+nn) (nn+MY+nn) (nn+MZ+nn)) (buf, tr) = Inl e \<and>
              e = MPI_Abort \<and> \<not> transport_delivers w)"
  unfolding exchange_layers_def
proof (rule for_each_safe [where P = "\<lambda>st. length (fst st) = length buf"])
  show "length (fst (buf, tr)) = length buf" by simp
next
  let ?X = "nn+MX+nn" and ?Y = "nn+MY+nn" and ?Z = "nn+MZ+nn"
  fix i and t :: "'a list \<times> event list"
  assume i: "i \<in> set (irange nn)" and t: "length (fst t) = length buf"
  from i have i': "0 \<le> i" "i < nn" by simp_all
  have pos: "0 \<le> ?X*?Y*?Z" using dims i' by simp
  show "(\<exists>t'. for_each (layer_calls nn MX MY MZ cm W E S N B T (x_normal ?X ?Y ?Z)
                  (y_normal ?X ?Y ?Z) i) (MPI_Sendrecv w) t = Inr t' \<and>
              length (fst t') = length buf) \<or>
        (\<exists>e. for_each (layer_calls nn MX MY MZ cm W E S N B T (x_normal ?X ?Y ?Z)
                  (y_normal ?X ?Y ?Z) i) (MPI_Sendrecv w) t = Inl e \<and>
             e = MPI_Abort \<and> \<not> transport_delivers w)"
  proof (rule for_each_safe [where P = "\<lambda>st. length (fst st) = length buf", OF t])
    fix c and u :: "'a list \<times> event list"
    assume c: "c \<in> set (layer_calls nn MX MY MZ cm W E S N B T (x_normal ?X ?Y ?Z)
                  (y_normal ?X ?Y ?Z) i)"
      and u: "length (fst u) = length buf"
    obtain b tr0 where ub: "u = (b, tr0)" by (cases u)
    have lb: "int (length b) = ?X*?Y*?Z" using u ub len pos by simp
    note cb = call_in_bounds [OF c dims i']
    from MPI_Sendrecv_safe [of c b w tr0] cb lb
    have "(\<exists>buf'. MPI_Sendrecv w c (b, tr0) = Inr (buf', tr0 @ [Sendrecv c]) \<and>
                  length buf' = length b) \<or>
         (MPI_Sendrecv w c (b, tr0) = Inl MPI_Abort \<and> \<not> transport_delivers w)"
      by simp
    then show "(\<exists>t'. MPI_Sendrecv w c u = Inr t' \<and> length (fst t') = length buf) \<or>
               (\<exists>e. MPI_Sendrecv w c u = Inl e \<and> e = MPI_Abort \<and> \<not> transport_delivers w)"
      using u ub by auto
  qed
qed


lemma component_pass_safe:
  assumes a: "0 \<le> a" "a < Q"
    and nn: "0 \<le> nn" and dims: "0 \<le> MX" "0 \<le> MY" "0 \<le> MZ"
    and ext: "padded nn MX = nn+MX+nn" "padded nn MY = nn+MY+nn" "padded nn MZ = nn+MZ+nn"
    and fit: "(nn+MX+nn)*(nn+MY+nn)*(nn+MZ+nn)*Q \<le> 2147483647"
    and len3: "length s = nat ((nn+MX+nn)*(nn+MY+nn)*(nn+MZ+nn))"
    and len4: "nat ((nn+MX+nn)*(nn+MY+nn)*(nn+MZ+nn)*Q) \<le> length f"
  shows "(\<exists>st. component_pass w nn Q MX MY MZ cm W E S N B T a (f, s, tr) = Inr st \<and>
               length (fst st) = length f \<and> length (fst (snd st)) = length s) \<or>
         (\<exists>e. component_pass w nn Q MX MY MZ cm W E S N B T a (f, s, tr) = Inl e \<and>
              e = MPI_Abort \<and> \<not> transport_delivers w)"
proof -
  let ?X = "nn+MX+nn" and ?Y = "nn+MY+nn" and ?Z = "nn+MZ+nn"
  let ?tr1 = "tr @ [Type_commit (x_normal ?X ?Y ?Z), Type_commit (y_normal ?X ?Y ?Z)]"
  have nonneg: "0 \<le> ?X" "0 \<le> ?Y" "0 \<le> ?Z" using nn dims by simp_all
  from gather_total [OF a fit len3 len4] obtain s1 where
    g: "gather a Q ?X ?Y ?Z f s = Inr s1" and l1: "length s1 = length s" by blast
  have tx: "build_stridex nn MX MY MZ = Inr (x_normal ?X ?Y ?Z)"
    by (rule build_stridex_eq [OF nonneg(2,3)])
  have ty: "build_stridey nn MX MY MZ = Inr (y_normal ?X ?Y ?Z)"
    by (rule build_stridey_eq [OF nonneg(1,3)])
  have l1': "length s1 = nat (?X*?Y*?Z)" using l1 len3 by simp
  from exchange_layers_safe [OF dims l1', of w cm W E S N B T ?tr1]
  consider (ok) s2 tr2 where
      "exchange_layers w nn MX MY MZ cm W E S N B T (x_normal ?X ?Y ?Z) (y_normal ?X ?Y ?Z)
         (s1, ?tr1) = Inr (s2, tr2)" "length s2 = length s1"
    | (abort) "exchange_layers w nn MX MY MZ cm W E S N B T (x_normal ?X ?Y ?Z) (y_normal ?X ?Y ?Z)
         (s1, ?tr1) = Inl MPI_Abort" "\<not> transport_delivers w"
    by fastforce
  then show ?thesis
  proof cases
    case ok
    have len3': "nat (?X*?Y*?Z) \<le> length s2" using ok(2) l1' by simp
    from scatter_total [OF a fit len3' len4] obtain f' where
      sc: "scatter a Q ?X ?Y ?Z s2 f = Inr f'" and lf: "length f' = length f" by blast
    have "component_pass w nn Q MX MY MZ cm W E S N B T a (f, s, tr) =
          Inr (f', s2, tr2 @ [Type_free (x_normal ?X ?Y ?Z), Type_free (y_normal ?X ?Y ?Z)])"
      unfolding component_pass_def Let_def ext
      by (simp only: g tx ty ok(1) sc bind_err_simps prod.case)
    then show ?thesis using lf ok(2) l1 by simp
  next
    case abort
    have "component_pass w nn Q MX MY MZ cm W E S N B T a (f, s, tr) = Inl MPI_Abort"
      unfolding component_pass_def Let_def ext
      by (simp only: g tx ty abort(1) bind_err_simps prod.case)
    then show ?thesis using abort(2) by simp
  qed
qed

lemma exchangePDF_safe:
  assumes nn: "0 \<le> nn" and dims: "0 \<le> MX" "0 \<le> MY" "0 \<le> MZ"
    and pos: "1 \<le> nn+MX+nn" "1 \<le> nn+MY+nn" "1 \<le> nn+MZ+nn"
    and vol: "(nn+MX+nn)*(nn+MY+nn)*(nn+MZ+nn) \<le> 2147483647"
    and fit: "(nn+MX+nn)*(nn+MY+nn)*(nn+MZ+nn)*Q \<le> 2147483647"
    and len4: "nat ((nn+MX+nn)*(nn+MY+nn)*(nn+MZ+nn)*Q) \<le> length PDF4d"
  shows "(\<exists>f' tr'. exchangePDF w nn Q MX MY MZ myid cm W E S N B T PDF4d = Inr (f', tr') \<and>
                    length f' = length PDF4d) \<or>
         (exchangePDF w nn Q MX MY MZ myid cm W E S N B T PDF4d = Inl MPI_Abort \<and>
          \<not> transport_delivers w)"
proof -
  let ?X = "nn+MX+nn" and ?Y = "nn+MY+nn" and ?Z = "nn+MZ+nn"
  let ?s0 = "map (uninitialized w) [0..<nat (?X*?Y*?Z)]"
  note ext = sizes_fit(1-3) [OF nn dims pos vol] and pv = sizes_fit(4) [OF nn dims pos vol]
  have "0 \<le> ?X*?Y*?Z" using nn dims by simp
  then have new: "new_array w (?X*?Y*?Z) = Inr ?s0" by (simp add: new_array_def)
  define P where "P st \<longleftrightarrow> length (fst st) = length PDF4d \<and> length (fst (snd st)) = nat (?X*?Y*?Z)"
    for st :: "'a list \<times> 'a list \<times> event list"
  have "(\<exists>st. for_each (irange Q) (component_pass w nn Q MX MY MZ cm W E S N B T)
                (PDF4d, ?s0, [New (?X*?Y*?Z)]) = Inr st \<and> P st) \<or>
        (\<exists>e. for_each (irange Q) (component_pass w nn Q MX MY MZ cm W E S N B T)
                (PDF4d, ?s0, [New (?X*?Y*?Z)]) = Inl e \<and> e = MPI_Abort \<and> \<not> transport_delivers w)"
  proof (rule for_each_safe [where P = P])
    show "P (PDF4d, ?s0, [New (?X*?Y*?Z)])" by (simp add: P_def)
  next
    fix a and t :: "'a list \<times> 'a list \<times> event list"
    assume a: "a \<in> set (irange Q)" and t: "P t"
    obtain f s tr where tt: "t = (f, s, tr)" by (cases t)
    from a have a': "0 \<le> a" "a < Q" by simp_all
    have l3: "length s = nat (?X*?Y*?Z)" and l4: "nat (?X*?Y*?Z*Q) \<le> length f"
      and lf: "length f = length PDF4d"
      using t tt len4 by (simp_all add: P_def)
    from component_pass_safe [OF a' nn dims ext fit l3 l4, of w cm W E S N B T tr]
    show "(\<exists>t'. component_pass w nn Q MX MY MZ cm W E S N B T a t = Inr t' \<and> P t') \<or>
          (\<exists>e. component_pass w nn Q MX MY MZ cm W E S N B T a t = Inl e \<and>
               e = MPI_Abort \<and> \<not> transport_delivers w)"
      unfolding tt P_def using l3 lf by auto
  qed
  then consider (ok) f' s' tr1 where
      "for_each (irange Q) (component_pass w nn Q MX MY MZ cm W E S N B T)
         (PDF4d, ?s0, [New (?X*?Y*?Z)]) = Inr (f', s', tr1)" "length f' = length PDF4d"
    | (abort) "for_each (irange Q) (component_pass w nn Q MX MY MZ cm W E S N B T)
         (PDF4d, ?s0, [New (?X*?Y*?Z)]) = Inl MPI_Abort" "\<not> transport_delivers w"
    unfolding P_def by fastforce
  then show ?thesis
  proof cases
    case ok
    have "exchangePDF w nn Q MX MY MZ myid cm W E S N B T PDF4d = Inr (f', tr1 @ [Delete])"
      unfolding exchangePDF_def Let_def pv by (simp only: new ok(1) bind_err_simps prod.case)
    then show ?thesis using ok(2) by simp
  next
    case abort
    have "exchangePDF w nn Q MX MY MZ myid cm W E S N B T PDF4d = Inl MPI_Abort"
      unfolding exchangePDF_def Let_def pv by (simp only: new abort(1) bind_err_simps prod.case)
    then show ?thesis using abort(2) by simp
  qed
qed

section \<open>The claims\<close>



text \<open>
  C2, as amended. For every component \<open>a\<close> in \<open>0..Q-1\<close> and every padded voxel \<open>(i,j,k)\<close> with
  \<open>0 \<le> i < MXP\<close>, \<open>0 \<le> j < MYP\<close>, \<open>0 \<le> k < MZP\<close>, provided the size \<open>MXP*MYP*MZP*Q\<close> of
  the interleaved buffer is within the range of a 32-bit \<^verbatim>\<open>int\<close>, the gather step sets
  \<open>scratch[index3D(i,j,k)] = interleaved[index4D(i,j,k,a)]\<close>, where
  \<open>index3D(i,j,k) = i + j*MXP + k*MXP*MYP\<close> and \<open>index4D(i,j,k,a) = a + index3D(i,j,k)*Q\<close>.
  The step returns (no access leaves a buffer), it copies values of an arbitrary type unchanged,
  and the voxels it visits include the ghost voxels: the whole padded box.
\<close>

theorem gather_copies_component:
  assumes "0 \<le> a" "a < Q"
    and "MXP*MYP*MZP*Q \<le> 2147483647"
    and "length PDF3d = nat (MXP*MYP*MZP)"
    and "nat (MXP*MYP*MZP*Q) \<le> length PDF4d"
  shows "\<exists>scratch. gather a Q MXP MYP MZP PDF4d PDF3d = Inr scratch \<and>
           length scratch = length PDF3d \<and>
           (\<forall>i j k. 0 \<le> i \<and> i < MXP \<and> 0 \<le> j \<and> j < MYP \<and> 0 \<le> k \<and> k < MZP \<longrightarrow>
              index3D MXP MYP i j k = i + j*MXP + k*MXP*MYP \<and>
              index4D Q MXP MYP i j k a = a + index3D MXP MYP i j k * Q \<and>
              scratch ! nat (index3D MXP MYP i j k) = PDF4d ! nat (index4D Q MXP MYP i j k a))"
proof -
  from gather_total [OF assms] obtain s where
    s: "gather a Q MXP MYP MZP PDF4d PDF3d = Inr s" "length s = length PDF3d"
    and v: "\<And>i j k. in_box MXP MYP MZP i j k \<Longrightarrow>
              s ! nat (index3D MXP MYP i j k) = PDF4d ! nat (index4D Q MXP MYP i j k a)"
    by blast
  have "s ! nat (index3D MXP MYP i j k) = PDF4d ! nat (index4D Q MXP MYP i j k a)"
    if "0 \<le> i \<and> i < MXP \<and> 0 \<le> j \<and> j < MYP \<and> 0 \<le> k \<and> k < MZP" for i j k
    using that by (intro v) (simp add: in_box_def)
  moreover have "index3D MXP MYP i j k = i + j*MXP + k*MXP*MYP" for i j k
    by (simp add: index3D_def)
  moreover have "index4D Q MXP MYP i j k a = a + index3D MXP MYP i j k * Q" for i j k
    by (simp add: index4D_def)
  ultimately show ?thesis using s by blast
qed

theorem gather_copies_component_witness:
  "(0::int) \<le> 1 \<and> (1::int) < 2 \<and> (2*2*1*2 :: int) \<le> 2147483647 \<and>
   length [0, 0, 0, 0 :: nat] = nat (2*2*1) \<and>
   nat (2*2*1*2) \<le> length [10, 11, 20, 21, 30, 31, 40, 41 :: nat] \<and>
   gather 1 2 2 2 1 [10, 11, 20, 21, 30, 31, 40, 41] [0, 0, 0, 0 :: nat] = Inr [11, 21, 31, 41] \<and>
   (\<exists>scratch. gather 1 2 2 2 1 [10, 11, 20, 21, 30, 31, 40, 41] [0, 0, 0, 0 :: nat] = Inr scratch \<and>
      scratch ! nat (index3D 2 2 1 1 0) =
      [10, 11, 20, 21, 30, 31, 40, 41] ! nat (index4D 2 2 2 1 1 0 1))"
proof -
  have g: "gather 1 2 2 2 1 [10, 11, 20, 21, 30, 31, 40, 41] [0, 0, 0, 0 :: nat] = Inr [11, 21, 31, 41]"
    by code_simp
  have h: "(0::int) \<le> 1" "(1::int) < 2" "(2*2*1*2 :: int) \<le> 2147483647"
    "length [0, 0, 0, 0 :: nat] = nat (2*2*1)"
    "nat (2*2*1*2) \<le> length [10, 11, 20, 21, 30, 31, 40, 41 :: nat]" by simp_all
  from gather_copies_component [OF h]
  obtain s where s: "gather 1 2 2 2 1 [10, 11, 20, 21, 30, 31, 40, 41] [0, 0, 0, 0 :: nat] = Inr s"
    and v: "\<forall>i j k. 0 \<le> i \<and> i < 2 \<and> 0 \<le> j \<and> j < 2 \<and> 0 \<le> k \<and> k < 1 \<longrightarrow>
              index3D 2 2 i j k = i + j*2 + k*2*2 \<and>
              index4D 2 2 2 i j k 1 = 1 + index3D 2 2 i j k * 2 \<and>
              s ! nat (index3D 2 2 i j k) = [10, 11, 20, 21, 30, 31, 40, 41] ! nat (index4D 2 2 2 i j k 1)"
    by blast
  have "(0::int) \<le> 1 \<and> (1::int) < 2 \<and> (0::int) \<le> 1 \<and> (1::int) < 2 \<and> (0::int) \<le> 0 \<and> (0::int) < 1"
    by simp
  with v have "s ! nat (index3D 2 2 1 1 0) = [10, 11, 20, 21, 30, 31, 40, 41] ! nat (index4D 2 2 2 1 1 0 1)"
    by blast
  with s g h show ?thesis by blast
qed

text \<open>
  C2 as stated fails beyond the range of an \<^verbatim>\<open>int\<close>. In a block of \<open>502*502*502\<close> padded
  voxels with \<open>Q = 19\<close> the scratch size fits an \<^verbatim>\<open>int\<close> and the size of the interleaved
  buffer does not. At the voxel \<open>(0, 0, 449)\<close> of component \<open>0\<close>, the first one in the order
  of the loops where it happens, line 48 computes the \<open>index3D\<close> of the voxel, \<open>113149796\<close>,
  and line 51 its product by \<open>19\<close>, which is \<open>index4D = 2149846124\<close> and wraps around to
  \<open>-2145121172\<close>: the read of line 54 is outside the interleaved buffer, and gather does not
  return.
\<close>

theorem gather_wraps_counterexample:
  "in_box 502 502 502 0 0 449 \<and>
   index3D 502 502 0 0 449 = 113149796 \<and>
   index4D 19 502 502 0 0 449 0 = 2149846124 \<and>
   add_int (add_int 0 (mul_int 0 502)) (mul_int (mul_int 449 502) 502) = 113149796 \<and>
   add_int 0 (mul_int 113149796 19) = - 2145121172 \<and>
   (502*502*502 :: int) \<le> 2147483647 \<and> (2147483647 :: int) < 502*502*502*19 \<and>
   length (replicate 126506008 (0::int)) = nat (502*502*502) \<and>
   nat (502*502*502*19) \<le> length (replicate 2403614152 (0::int)) \<and>
   gather 0 19 502 502 502 (replicate 2403614152 (0::int)) (replicate 126506008 0) =
     Inl OutOfBounds"
proof -
  have b: "in_box 502 502 502 0 0 449" by (simp add: in_box_def)
  have n: "index3D 502 502 0 0 449 = 113149796" by (simp add: index3D_def)
  have m: "index4D 19 502 502 0 0 449 0 = 2149846124" by (simp add: index4D_def index3D_def)
  have c3: "add_int (add_int 0 (mul_int 0 502)) (mul_int (mul_int 449 502) 502) = 113149796"
    by (simp add: add_int_def mul_int_def int32_def)
  have c4: "add_int 0 (mul_int 113149796 19) = - 2145121172"
    by (simp add: add_int_def mul_int_def int32_def)
  have neg: "int32 (index4D 19 502 502 0 0 449 0) < 0" by (simp add: m int32_def)
  have f: "(502*502*502 :: int) \<le> 2147483647" "(2147483647 :: int) < 502*502*502*19"
    by simp_all
  have l3: "length (replicate 126506008 (0::int)) = nat (502*502*502)"
    by (simp only: length_replicate)
  have l4: "nat (502*502*502*19) \<le> length (replicate 2403614152 (0::int))"
    by (simp only: length_replicate)
  have g: "gather 0 19 502 502 502 (replicate 2403614152 (0::int)) (replicate 126506008 0) =
     Inl OutOfBounds"
    by (rule gather_out_of_bounds [OF b neg])
  show ?thesis by (intro conjI) (rule b n m c3 c4 f l3 l4 g)+
qed

text \<open>
  C3, as amended. For every interleaved field, all grid extents \<open>MX, MY, MZ \<ge> 1\<close>, every
  \<open>nn \<ge> 1\<close> and every \<open>Q \<ge> 1\<close> such that the size \<open>MXP*MYP*MZP*Q\<close> of the field is
  within the range of a 32-bit \<^verbatim>\<open>int\<close>, gather for a component followed by scatter for the
  same component, with nothing in between, returns the interleaved field as it was, for each
  of the \<open>Q\<close> components and whatever the scratch buffer held before; and so does the loop
  that gathers and scatters the \<open>Q\<close> components one after the other. The padded extents are
  those the routine computes in lines 28-30.
\<close>

theorem gather_scatter_identity:
  assumes "1 \<le> MX" "1 \<le> MY" "1 \<le> MZ" "1 \<le> nn" "1 \<le> Q"
    and "0 \<le> a" "a < Q"
    and "length PDF4d = nat ((nn+MX+nn)*(nn+MY+nn)*(nn+MZ+nn)*Q)"
    and "length PDF3d = nat ((nn+MX+nn)*(nn+MY+nn)*(nn+MZ+nn))"
    and "(nn+MX+nn)*(nn+MY+nn)*(nn+MZ+nn)*Q \<le> 2147483647"
  shows "(\<exists>scratch. gather a Q (nn+MX+nn) (nn+MY+nn) (nn+MZ+nn) PDF4d PDF3d = Inr scratch \<and>
           scatter a Q (nn+MX+nn) (nn+MY+nn) (nn+MZ+nn) scratch PDF4d = Inr PDF4d) \<and>
         (\<exists>scratch. for_each (irange Q) (\<lambda>a (field, scratch).
              bind_err (gather a Q (nn+MX+nn) (nn+MY+nn) (nn+MZ+nn) field scratch) (\<lambda>scratch.
              bind_err (scatter a Q (nn+MX+nn) (nn+MY+nn) (nn+MZ+nn) scratch field) (\<lambda>field.
              Inr (field, scratch)))) (PDF4d, PDF3d) = Inr (PDF4d, scratch)) \<and>
         padded nn MX = nn+MX+nn \<and> padded nn MY = nn+MY+nn \<and> padded nn MZ = nn+MZ+nn"
proof -
  let ?X = "nn+MX+nn" and ?Y = "nn+MY+nn" and ?Z = "nn+MZ+nn"
  note fit = assms(10)
  have nn: "0 \<le> nn" and dims: "0 \<le> MX" "0 \<le> MY" "0 \<le> MZ"
    and pos: "1 \<le> ?X" "1 \<le> ?Y" "1 \<le> ?Z" using assms(1-4) by simp_all
  have "0 \<le> ?X*?Y*?Z" using pos by simp
  then have "?X*?Y*?Z * 1 \<le> ?X*?Y*?Z * Q" using assms(5) by (intro mult_left_mono) simp_all
  then have "?X*?Y*?Z \<le> ?X*?Y*?Z * Q" by (simp only: mult_1_right)
  then have vol: "?X*?Y*?Z \<le> 2147483647" using fit by linarith
  note ext = sizes_fit(1-3) [OF nn dims pos vol]
  have len4: "nat (?X*?Y*?Z*Q) \<le> length PDF4d" using assms(8) by simp
  from gather_total [OF assms(6,7) fit assms(9) len4] obtain s where
    s: "gather a Q ?X ?Y ?Z PDF4d PDF3d = Inr s" "length s = length PDF3d"
    and v: "\<And>i j k. in_box ?X ?Y ?Z i j k \<Longrightarrow>
              s ! nat (index3D ?X ?Y i j k) = PDF4d ! nat (index4D Q ?X ?Y i j k a)"
    by blast
  have len3: "nat (?X*?Y*?Z) \<le> length s" using s(2) assms(9) by simp
  have "scatter a Q ?X ?Y ?Z s PDF4d = Inr PDF4d"
    by (rule scatter_same [OF assms(6,7) fit len3 len4]) (rule v)
  then have one: "\<exists>scratch. gather a Q ?X ?Y ?Z PDF4d PDF3d = Inr scratch \<and>
      scatter a Q ?X ?Y ?Z scratch PDF4d = Inr PDF4d" using s(1) by blast
  let ?body = "\<lambda>a (field, scratch).
              bind_err (gather a Q ?X ?Y ?Z field scratch) (\<lambda>scratch.
              bind_err (scatter a Q ?X ?Y ?Z scratch field) (\<lambda>field.
              Inr (field, scratch)))"
  have "\<exists>st. for_each (irange Q) ?body (PDF4d, PDF3d) = Inr st \<and>
          fst st = PDF4d \<and> length (snd st) = length PDF3d"
  proof (rule for_each_total [where P = "\<lambda>st. fst st = PDF4d \<and> length (snd st) = length PDF3d"])
    show "fst (PDF4d, PDF3d) = PDF4d \<and> length (snd (PDF4d, PDF3d)) = length PDF3d" by simp
  next
    fix b and t :: "'a list \<times> 'a list"
    assume b: "b \<in> set (irange Q)" and t: "fst t = PDF4d \<and> length (snd t) = length PDF3d"
    obtain f0 s0 where tt: "t = (f0, s0)" by (cases t)
    from b have b': "0 \<le> b" "b < Q" by simp_all
    have l0: "length s0 = nat (?X*?Y*?Z)" and f0: "f0 = PDF4d" using t tt assms(9) by simp_all
    from gather_total [OF b' fit l0 len4] obtain s1 where
      g1: "gather b Q ?X ?Y ?Z PDF4d s0 = Inr s1" and l1: "length s1 = length s0"
      and v1: "\<And>i j k. in_box ?X ?Y ?Z i j k \<Longrightarrow>
              s1 ! nat (index3D ?X ?Y i j k) = PDF4d ! nat (index4D Q ?X ?Y i j k b)"
      by blast
    have l1': "nat (?X*?Y*?Z) \<le> length s1" using l1 l0 by simp
    have sc1: "scatter b Q ?X ?Y ?Z s1 PDF4d = Inr PDF4d"
      by (rule scatter_same [OF b' fit l1' len4]) (rule v1)
    have "?body b t = Inr (PDF4d, s1)"
      unfolding tt f0 by (simp only: prod.case g1 sc1 bind_err_simps)
    then show "\<exists>t'. ?body b t = Inr t' \<and> fst t' = PDF4d \<and> length (snd t') = length PDF3d"
      using l1 l0 assms(9) by simp
  qed
  then have "\<exists>scratch. for_each (irange Q) ?body (PDF4d, PDF3d) = Inr (PDF4d, scratch)"
    by (metis prod.collapse)
  with one ext show ?thesis by blast
qed

theorem gather_scatter_identity_witness:
  "(1::int) \<le> 1 \<and> (0::int) \<le> 1 \<and> (1::int) < 2 \<and>
   length (map int [0..<54]) = nat ((1+1+1)*(1+1+1)*(1+1+1)*2) \<and>
   length (replicate 27 (0::int)) = nat ((1+1+1)*(1+1+1)*(1+1+1)) \<and>
   ((1+1+1)*(1+1+1)*(1+1+1)*2 :: int) \<le> 2147483647 \<and> padded 1 1 = 1+1+1 \<and>
   (\<exists>scratch. gather 1 2 (1+1+1) (1+1+1) (1+1+1) (map int [0..<54]) (replicate 27 0) = Inr scratch \<and>
      scatter 1 2 (1+1+1) (1+1+1) (1+1+1) scratch (map int [0..<54]) = Inr (map int [0..<54])) \<and>
   gather 1 2 3 3 3 (map int [0..<54]) (replicate 27 0) = Inr (map (\<lambda>n. 2 * int n + 1) [0..<27]) \<and>
   scatter 1 2 3 3 3 (map (\<lambda>n. 2 * int n + 1) [0..<27]) (map int [0..<54]) =
     Inr (map int [0..<54])"
proof -
  have h: "(1::int) \<le> 1" "(1::int) \<le> 2" "(0::int) \<le> 1" "(1::int) < 2"
    "length (map int [0..<54]) = nat ((1+1+1)*(1+1+1)*(1+1+1)*2)"
    "length (replicate 27 (0::int)) = nat ((1+1+1)*(1+1+1)*(1+1+1))"
    "((1+1+1)*(1+1+1)*(1+1+1)*2 :: int) \<le> 2147483647" by simp_all
  have g: "gather 1 2 3 3 3 (map int [0..<54]) (replicate 27 0) =
      Inr (map (\<lambda>n. 2 * int n + 1) [0..<27])" by code_simp
  have s: "scatter 1 2 3 3 3 (map (\<lambda>n. 2 * int n + 1) [0..<27]) (map int [0..<54]) =
      Inr (map int [0..<54])" by code_simp
  note t = gather_scatter_identity [OF h(1) h(1) h(1) h(1) h(2) h(3) h(4) h(5) h(6) h(7)]
  from t
  have "\<exists>scratch. gather 1 2 (1+1+1) (1+1+1) (1+1+1) (map int [0..<54]) (replicate 27 0) = Inr scratch \<and>
      scatter 1 2 (1+1+1) (1+1+1) (1+1+1) scratch (map int [0..<54]) = Inr (map int [0..<54])"
    by blast
  moreover from t have "padded 1 1 = 1+1+1" by blast
  ultimately show ?thesis using h g s by blast
qed

text \<open>
  C3 as stated fails beyond the range of an \<^verbatim>\<open>int\<close>: with \<open>nn = 1\<close>, \<open>Q = 19\<close> and
  \<open>500*500*500\<close> voxels the field has \<open>2403614152\<close> elements. For the last component,
  \<open>18\<close>, neither gather nor scatter returns, whatever the scratch buffer holds: at the voxel
  \<open>(156, 254, 448)\<close> the index \<open>18 + 113025456*19\<close> of lines 51 and 348 wraps around to
  \<open>-2147483614\<close>, and the read of line 54 and the write of line 351 are outside the field.
\<close>

theorem gather_scatter_wraps_counterexample:
  "(1::int) \<le> 500 \<and> (1::int) \<le> 1 \<and> (1::int) \<le> 19 \<and> (0::int) \<le> 18 \<and> (18::int) < 19 \<and>
   length (replicate 2403614152 (0::int)) = nat ((1+500+1)*(1+500+1)*(1+500+1)*19) \<and>
   length (replicate 126506008 (0::int)) = nat ((1+500+1)*(1+500+1)*(1+500+1)) \<and>
   padded 1 500 = 1+500+1 \<and>
   index4D 19 (1+500+1) (1+500+1) 156 254 448 18 = 2147483682 \<and>
   add_int 18 (mul_int (add_int (add_int 156 (mul_int 254 (1+500+1)))
      (mul_int (mul_int 448 (1+500+1)) (1+500+1))) 19) = - 2147483614 \<and>
   gather 18 19 (1+500+1) (1+500+1) (1+500+1)
     (replicate 2403614152 (0::int)) (replicate 126506008 0) = Inl OutOfBounds \<and>
   scatter 18 19 (1+500+1) (1+500+1) (1+500+1)
     (replicate 126506008 0) (replicate 2403614152 (0::int)) = Inl OutOfBounds"
proof -
  have h: "(1::int) \<le> 500" "(1::int) \<le> 1" "(1::int) \<le> 19" "(0::int) \<le> 18" "(18::int) < 19"
    by simp_all
  have l4: "length (replicate 2403614152 (0::int)) = nat ((1+500+1)*(1+500+1)*(1+500+1)*19)"
    by (simp only: length_replicate) simp
  have l3: "length (replicate 126506008 (0::int)) = nat ((1+500+1)*(1+500+1)*(1+500+1))"
    by (simp only: length_replicate) simp
  have p: "padded 1 500 = 1+500+1" by (simp add: padded_def add_int_def int32_def)
  have b: "in_box (1+500+1) (1+500+1) (1+500+1) 156 254 448" by (simp add: in_box_def)
  have m: "index4D 19 (1+500+1) (1+500+1) 156 254 448 18 = 2147483682"
    by (simp add: index4D_def index3D_def)
  have c: "add_int 18 (mul_int (add_int (add_int 156 (mul_int 254 (1+500+1)))
      (mul_int (mul_int 448 (1+500+1)) (1+500+1))) 19) = - 2147483614"
    by (simp add: add_int_def mul_int_def int32_def)
  have neg: "int32 (index4D 19 (1+500+1) (1+500+1) 156 254 448 18) < 0"
    by (simp add: index4D_def index3D_def int32_def)
  have g: "gather 18 19 (1+500+1) (1+500+1) (1+500+1)
             (replicate 2403614152 (0::int)) (replicate 126506008 0) = Inl OutOfBounds"
    by (rule gather_out_of_bounds [OF b neg])
  have s: "scatter 18 19 (1+500+1) (1+500+1) (1+500+1)
     (replicate 126506008 0) (replicate 2403614152 (0::int)) = Inl OutOfBounds"
    by (rule scatter_out_of_bounds [OF b neg])
  show ?thesis by (intro conjI) (rule h l4 l3 p m c g s)+
qed






text \<open>
  C6, as amended. In a call with \<open>nn\<close>, extents and \<open>Q\<close> of one or more and a field of
  \<open>MXP*MYP*MZP*Q\<close> elements, a size within the range of a 32-bit \<^verbatim>\<open>int\<close>: if all six neighbor
  identities denote "no neighbor", the exchange completes without error and returns the field
  as it was: every ghost-layer element (and every other element) holds its value of before the
  call, for all components and all ghost depths. For any set of directions whose neighbor is
  "no neighbor", those directions' legs are skipped: when the call returns, every voxel that
  lies on the side of no other neighbor holds its value of before the call, in all components;
  and whichever neighbors are "no neighbor", the call returns whenever the transport delivers
  to the others.
\<close>

theorem no_neighbor_is_noop:
  assumes "1 \<le> nn" "1 \<le> MX" "1 \<le> MY" "1 \<le> MZ" "1 \<le> Q"
    and "(nn+MX+nn)*(nn+MY+nn)*(nn+MZ+nn)*Q \<le> 2147483647"
    and "nat ((nn+MX+nn)*(nn+MY+nn)*(nn+MZ+nn)*Q) \<le> length PDF4d"
  shows "(\<exists>tr. exchangePDF w nn Q MX MY MZ myid cm (MPI_PROC_NULL w) (MPI_PROC_NULL w)
            (MPI_PROC_NULL w) (MPI_PROC_NULL w) (MPI_PROC_NULL w) (MPI_PROC_NULL w) PDF4d =
          Inr (PDF4d, tr)) \<and>
         (\<forall>W E S N B T f' tr' i j k a.
            exchangePDF w nn Q MX MY MZ myid cm W E S N B T PDF4d = Inr (f', tr') \<and>
            in_box (nn+MX+nn) (nn+MY+nn) (nn+MZ+nn) i j k \<and> 0 \<le> a \<and> a < Q \<and>
            \<not> refreshed w nn MX MY MZ W E S N B T i j k \<longrightarrow>
            f' ! nat (index4D Q (nn+MX+nn) (nn+MY+nn) i j k a) =
            PDF4d ! nat (index4D Q (nn+MX+nn) (nn+MY+nn) i j k a)) \<and>
         (\<forall>W E S N B T. transport_delivers w \<longrightarrow>
            (\<exists>f' tr'. exchangePDF w nn Q MX MY MZ myid cm W E S N B T PDF4d = Inr (f', tr')))"
proof -
  let ?X = "nn+MX+nn" and ?Y = "nn+MY+nn" and ?Z = "nn+MZ+nn"
  note fit = assms(6) and len = assms(7)
  have nn: "0 \<le> nn" and dims: "0 \<le> MX" "0 \<le> MY" "0 \<le> MZ"
    and pos: "1 \<le> ?X" "1 \<le> ?Y" "1 \<le> ?Z" using assms(1-4) by simp_all
  have "0 \<le> ?X*?Y*?Z" using pos by simp
  then have "?X*?Y*?Z * 1 \<le> ?X*?Y*?Z * Q" using assms(5) by (intro mult_left_mono) simp_all
  then have "?X*?Y*?Z \<le> ?X*?Y*?Z * Q" by (simp only: mult_1_right)
  then have vol: "?X*?Y*?Z \<le> 2147483647" using fit by linarith
  show ?thesis
  proof (intro conjI allI impI)
    from exchangePDF_null [OF nn dims pos vol fit len]
    show "\<exists>tr. exchangePDF w nn Q MX MY MZ myid cm (MPI_PROC_NULL w) (MPI_PROC_NULL w)
            (MPI_PROC_NULL w) (MPI_PROC_NULL w) (MPI_PROC_NULL w) (MPI_PROC_NULL w) PDF4d =
          Inr (PDF4d, tr)" by blast
  next
    fix W E S N B T f' tr' i j k a
    assume h: "exchangePDF w nn Q MX MY MZ myid cm W E S N B T PDF4d = Inr (f', tr') \<and>
            in_box ?X ?Y ?Z i j k \<and> 0 \<le> a \<and> a < Q \<and>
            \<not> refreshed w nn MX MY MZ W E S N B T i j k"
    from h exchangePDF_frame(2) [OF _ nn dims pos vol fit len]
    show "f' ! nat (index4D Q ?X ?Y i j k a) = PDF4d ! nat (index4D Q ?X ?Y i j k a)" by blast
  next
    fix W E S N B T
    assume d: "transport_delivers w"
    from exchangePDF_safe [OF nn dims pos vol fit len, of w myid cm W E S N B T] d
    show "\<exists>f' tr'. exchangePDF w nn Q MX MY MZ myid cm W E S N B T PDF4d = Inr (f', tr')"
      by blast
  qed
qed

theorem no_neighbor_is_noop_witness:
  "(1::int) \<le> 1 \<and> ((1+1+1)*(1+1+1)*(1+1+1)*1 :: int) \<le> 2147483647 \<and>
   nat ((1+1+1)*(1+1+1)*(1+1+1)*1) \<le> length (replicate 27 (7::int)) \<and>
   (\<exists>tr. exchangePDF (uniform_world (3::int)) 1 1 1 1 1 0 0 (-1) (-1) (-1) (-1) (-1) (-1)
            (replicate 27 7) = Inr (replicate 27 7, tr)) \<and>
   exchangePDF (uniform_world (3::int)) 1 1 1 1 1 0 0 1 2 3 4 5 (-1) (replicate 27 7) =
     Inr (replicate 13 3 @ [7] @ replicate 8 3 @ [7] @ replicate 4 3,
          [New 27] @ component_events 1 1 1 1 0 1 2 3 4 5 (-1) @ [Delete]) \<and>
   in_box (1+1+1) (1+1+1) (1+1+1) 1 1 2 \<and>
   \<not> refreshed (uniform_world (3::int)) 1 1 1 1 1 2 3 4 5 (-1) 1 1 2 \<and>
   (replicate 13 3 @ [7] @ replicate 8 3 @ [7] @ replicate 4 (3::int)) !
      nat (index4D 1 (1+1+1) (1+1+1) 1 1 2 0) =
   replicate 27 7 ! nat (index4D 1 (1+1+1) (1+1+1) 1 1 2 0)"
proof -
  have run: "exchangePDF (uniform_world (3::int)) 1 1 1 1 1 0 0 1 2 3 4 5 (-1) (replicate 27 7) =
     Inr (replicate 13 3 @ [7] @ replicate 8 3 @ [7] @ replicate 4 3,
          [New 27] @ component_events 1 1 1 1 0 1 2 3 4 5 (-1) @ [Delete])"
    by code_simp
  have null: "MPI_PROC_NULL (uniform_world (3::int)) = -1" by (simp add: uniform_world_def)
  have h: "(1::int) \<le> 1" "((1+1+1)*(1+1+1)*(1+1+1)*1 :: int) \<le> 2147483647"
    "nat ((1+1+1)*(1+1+1)*(1+1+1)*1) \<le> length (replicate 27 (7::int))"
    by simp_all
  have b: "in_box (1+1+1) (1+1+1) (1+1+1) 1 1 2" "(0::int) \<le> 0" "(0::int) < 1"
    "\<not> refreshed (uniform_world (3::int)) 1 1 1 1 1 2 3 4 5 (-1) 1 1 2"
    by (simp_all add: in_box_def refreshed_def null)
  note t = no_neighbor_is_noop [OF h(1) h(1) h(1) h(1) h(1) h(2) h(3),
      where w = "uniform_world 3" and myid = 0 and cm = 0]
  from t have "\<exists>tr. exchangePDF (uniform_world (3::int)) 1 1 1 1 1 0 0 (-1) (-1) (-1) (-1) (-1) (-1)
            (replicate 27 7) = Inr (replicate 27 7, tr)"
    unfolding null by blast
  moreover from t run b
  have "(replicate 13 3 @ [7] @ replicate 8 3 @ [7] @ replicate 4 (3::int)) !
      nat (index4D 1 (1+1+1) (1+1+1) 1 1 2 0) =
    replicate 27 7 ! nat (index4D 1 (1+1+1) (1+1+1) 1 1 2 0)"
    by blast
  ultimately show ?thesis using run h b by blast
qed

text \<open>
  C6 as stated fails beyond the range of an \<^verbatim>\<open>int\<close>: with \<open>nn = 1\<close>, \<open>Q = 19\<close>,
  \<open>500*500*500\<close> voxels, a field of the \<open>2403614152\<close> elements of the data model and all six
  neighbors "no neighbor", the call does not complete without error. The first gather computes
  the index \<open>-2147483632\<close> at the voxel \<open>(156, 254, 448)\<close> and leaves the field.
\<close>

theorem no_neighbor_wraps_counterexample:
  "(1::int) \<le> 1 \<and> (1::int) \<le> 500 \<and> (1::int) \<le> 19 \<and>
   nat ((1+500+1)*(1+500+1)*(1+500+1)*19) \<le> length (replicate 2403614152 (7::int)) \<and>
   MPI_PROC_NULL (uniform_world (3::int)) = -1 \<and>
   (2147483647::int) < (1+500+1)*(1+500+1)*(1+500+1)*19 \<and>
   exchangePDF (uniform_world (3::int)) 1 19 500 500 500 0 0 (-1) (-1) (-1) (-1) (-1) (-1)
     (replicate 2403614152 7) = Inl OutOfBounds"
proof -
  have h: "(1::int) \<le> 1" "(1::int) \<le> 500" "(1::int) \<le> 19"
    "(2147483647::int) < (1+500+1)*(1+500+1)*(1+500+1)*19" by simp_all
  have l4: "nat ((1+500+1)*(1+500+1)*(1+500+1)*19) \<le> length (replicate 2403614152 (7::int))"
    by (simp only: length_replicate) simp
  have null: "MPI_PROC_NULL (uniform_world (3::int)) = -1" by (simp add: uniform_world_def)
  have p': "padded 1 500 = 502" by (simp add: padded_def add_int_def int32_def)
  have vol: "0 \<le> padded_voxels 1 500 500 500"
    by (simp add: padded_voxels_def Let_def p' mul_int_def int32_def)
  have b: "in_box (padded 1 500) (padded 1 500) (padded 1 500) 156 254 448"
    by (simp add: p' in_box_def)
  have neg: "int32 (index4D 19 (padded 1 500) (padded 1 500) 156 254 448 0) < 0"
    by (simp add: p' index4D_def index3D_def int32_def)
  have r: "exchangePDF (uniform_world (3::int)) 1 19 500 500 500 0 0 (-1) (-1) (-1) (-1) (-1) (-1)
     (replicate 2403614152 7) = Inl OutOfBounds"
    by (rule exchangePDF_out_of_bounds [OF vol _ b neg]) simp
  show ?thesis by (intro conjI) (rule h l4 null r)+
qed

text \<open>
  C7, as amended. A call with \<open>Q < 1\<close> and a scratch size that is not negative returns
  normally, the field unchanged, having only allocated and released the scratch buffer; the
  scratch size is \<^verbatim>\<open>PADDED_VOXELS\<close>, the 32-bit product \<open>MXP*MYP*MZP\<close> of line 33. A call
  with a scratch size that is negative ends with the failed allocation of line 37
  (\<^verbatim>\<open>std::bad_array_new_length\<close>), whatever its other arguments. With \<open>nn < 1\<close>, a call that
  returns has issued no paired call. With \<open>nn \<ge> 1\<close>, extents that are zero or more,
  \<open>MXP*MYP*MZP\<close> and \<open>MXP*MYP*MZP*Q\<close> within the range of a 32-bit \<^verbatim>\<open>int\<close> and a field of
  at least \<open>MXP*MYP*MZP*Q\<close> elements, the call is not rejected: it returns normally unless
  the transport fails.
\<close>

theorem no_argument_check:
  "(Q < 1 \<and> 0 \<le> padded_voxels nn MX MY MZ \<longrightarrow>
      exchangePDF w nn Q MX MY MZ myid cm W E S N B T PDF4d =
      Inr (PDF4d, [New (padded_voxels nn MX MY MZ), Delete])) \<and>
   (padded_voxels nn MX MY MZ < 0 \<longrightarrow>
      exchangePDF w nn Q MX MY MZ myid cm W E S N B T PDF4d = Inl BadArrayNewLength) \<and>
   (nn < 1 \<and> exchangePDF w nn Q MX MY MZ myid cm W E S N B T PDF4d = Inr (f', tr') \<longrightarrow>
      sendrecv_calls tr' = []) \<and>
   (1 \<le> nn \<and> 0 \<le> MX \<and> 0 \<le> MY \<and> 0 \<le> MZ \<and>
    (nn+MX+nn)*(nn+MY+nn)*(nn+MZ+nn) \<le> 2147483647 \<and>
    (nn+MX+nn)*(nn+MY+nn)*(nn+MZ+nn)*Q \<le> 2147483647 \<and>
    nat ((nn+MX+nn)*(nn+MY+nn)*(nn+MZ+nn)*Q) \<le> length PDF4d \<longrightarrow>
      (\<exists>g tr. exchangePDF w nn Q MX MY MZ myid cm W E S N B T PDF4d = Inr (g, tr)) \<or>
      exchangePDF w nn Q MX MY MZ myid cm W E S N B T PDF4d = Inl MPI_Abort \<and>
      \<not> transport_delivers w) \<and>
   padded_voxels nn MX MY MZ = int32 ((nn+MX+nn)*(nn+MY+nn)*(nn+MZ+nn))"
proof (intro conjI impI)
  assume "Q < 1 \<and> 0 \<le> padded_voxels nn MX MY MZ"
  then have q: "irange Q = []" and n: "\<not> padded_voxels nn MX MY MZ < 0" by simp_all
  show "exchangePDF w nn Q MX MY MZ myid cm W E S N B T PDF4d =
      Inr (PDF4d, [New (padded_voxels nn MX MY MZ), Delete])"
    unfolding exchangePDF_def Let_def new_array_def q
    by (simp only: n if_False bind_err_simps for_each.simps prod.case append.simps)
next
  assume n: "padded_voxels nn MX MY MZ < 0"
  show "exchangePDF w nn Q MX MY MZ myid cm W E S N B T PDF4d = Inl BadArrayNewLength"
    unfolding exchangePDF_def Let_def new_array_def
    by (simp only: n if_True bind_err_simps)
next
  assume h: "nn < 1 \<and> exchangePDF w nn Q MX MY MZ myid cm W E S N B T PDF4d = Inr (f', tr')"
  then have "irange nn = []" by simp
  then have "sendrecv_calls (component_events nn MX MY MZ cm W E S N B T) = []"
    by (simp add: sendrecv_calls_component)
  then show "sendrecv_calls tr' = []"
    using exchangePDF_trace [of w nn Q MX MY MZ myid cm W E S N B T PDF4d f' tr'] h
    by (simp add: sendrecv_calls_append sendrecv_calls_concat)
next
  assume h: "1 \<le> nn \<and> 0 \<le> MX \<and> 0 \<le> MY \<and> 0 \<le> MZ \<and>
    (nn+MX+nn)*(nn+MY+nn)*(nn+MZ+nn) \<le> 2147483647 \<and>
    (nn+MX+nn)*(nn+MY+nn)*(nn+MZ+nn)*Q \<le> 2147483647 \<and>
    nat ((nn+MX+nn)*(nn+MY+nn)*(nn+MZ+nn)*Q) \<le> length PDF4d"
  then have nn: "0 \<le> nn" and dims: "0 \<le> MX" "0 \<le> MY" "0 \<le> MZ"
    and pos: "1 \<le> nn+MX+nn" "1 \<le> nn+MY+nn" "1 \<le> nn+MZ+nn"
    and vol: "(nn+MX+nn)*(nn+MY+nn)*(nn+MZ+nn) \<le> 2147483647"
    and fit: "(nn+MX+nn)*(nn+MY+nn)*(nn+MZ+nn)*Q \<le> 2147483647"
    and len: "nat ((nn+MX+nn)*(nn+MY+nn)*(nn+MZ+nn)*Q) \<le> length PDF4d" by simp_all
  from exchangePDF_safe [OF nn dims pos vol fit len, of w myid cm W E S N B T]
  show "(\<exists>g tr. exchangePDF w nn Q MX MY MZ myid cm W E S N B T PDF4d = Inr (g, tr)) \<or>
      exchangePDF w nn Q MX MY MZ myid cm W E S N B T PDF4d = Inl MPI_Abort \<and>
      \<not> transport_delivers w" by blast
next
  show "padded_voxels nn MX MY MZ = int32 ((nn+MX+nn)*(nn+MY+nn)*(nn+MZ+nn))"
    by (rule padded_voxels_int32)
qed

theorem no_argument_check_witness:
  "(0::int) < 1 \<and> padded_voxels 1 1 1 1 = 27 \<and>
   exchangePDF (uniform_world (3::int)) 1 0 1 1 1 0 0 1 2 3 4 5 6 [7, 7] =
     Inr ([7, 7], [New (padded_voxels 1 1 1 1), Delete]) \<and>
   padded_voxels 0 2048 2048 512 = - 2147483648 \<and>
   exchangePDF (uniform_world (3::int)) 0 0 2048 2048 512 0 0 1 2 3 4 5 6 [] =
     Inl BadArrayNewLength \<and>
   padded_voxels 1 (-3) 1 1 = - 9 \<and>
   exchangePDF (uniform_world (3::int)) 1 1 (-3) 1 1 0 0 1 2 3 4 5 6 [] =
     Inl BadArrayNewLength \<and>
   exchangePDF (uniform_world (3::int)) 0 1 1 1 1 0 0 1 2 3 4 5 6 [7] =
     Inr ([7], [New 1, Type_commit (Vector 1 1 1), Type_commit (Vector 1 1 1),
                Type_free (Vector 1 1 1), Type_free (Vector 1 1 1), Delete]) \<and>
   sendrecv_calls [New 1, Type_commit (Vector 1 1 1), Type_commit (Vector 1 1 1),
                Type_free (Vector 1 1 1), Type_free (Vector 1 1 1), Delete] = [] \<and>
   (1::int) \<le> 1 \<and> (0::int) \<le> 0 \<and> ((1+0+1)*(1+1+1)*(1+1+1) :: int) \<le> 2147483647 \<and>
   ((1+0+1)*(1+1+1)*(1+1+1)*1 :: int) \<le> 2147483647 \<and>
   nat ((1+0+1)*(1+1+1)*(1+1+1)*1) \<le> length (replicate 18 (7::int)) \<and>
   transport_delivers (uniform_world (3::int)) \<and>
   (\<exists>g tr. exchangePDF (uniform_world (3::int)) 1 1 0 1 1 0 0 1 2 3 4 5 6 (replicate 18 7) =
      Inr (g, tr))"
proof -
  have run: "exchangePDF (uniform_world (3::int)) 0 1 1 1 1 0 0 1 2 3 4 5 6 [7] =
     Inr ([7], [New 1, Type_commit (Vector 1 1 1), Type_commit (Vector 1 1 1),
                Type_free (Vector 1 1 1), Type_free (Vector 1 1 1), Delete])"
    by code_simp
  have pv: "padded_voxels 1 1 1 1 = 27" "padded_voxels 0 2048 2048 512 = - 2147483648"
    "padded_voxels 1 (-3) 1 1 = - 9"
    by (simp_all add: padded_voxels_int32 int32_def)
  have h: "(0::int) < 1 \<and> 0 \<le> padded_voxels 1 1 1 1" by (simp add: pv)
  have n: "padded_voxels 0 2048 2048 512 < 0" "padded_voxels 1 (-3) 1 1 < 0" by (simp_all add: pv)
  have h2: "(0::int) < 1" by simp
  have h3: "(1::int) \<le> 1 \<and> (0::int) \<le> 0 \<and> (0::int) \<le> 1 \<and> (0::int) \<le> 1 \<and>
    ((1+0+1)*(1+1+1)*(1+1+1) :: int) \<le> 2147483647 \<and>
    ((1+0+1)*(1+1+1)*(1+1+1)*1 :: int) \<le> 2147483647 \<and>
    nat ((1+0+1)*(1+1+1)*(1+1+1)*1) \<le> length (replicate 18 (7::int))" by simp
  have d: "transport_delivers (uniform_world (3::int))"
    by (simp add: transport_delivers_def uniform_world_def)
  from no_argument_check [of 0 1 1 1 1 "uniform_world 3" 0 0 1 2 3 4 5 6 "[7, 7]"] h
  have 1: "exchangePDF (uniform_world (3::int)) 1 0 1 1 1 0 0 1 2 3 4 5 6 [7, 7] =
     Inr ([7, 7], [New (padded_voxels 1 1 1 1), Delete])" by blast
  from no_argument_check [of 0 0 2048 2048 512 "uniform_world 3" 0 0 1 2 3 4 5 6 "[]"] n(1)
  have 2: "exchangePDF (uniform_world (3::int)) 0 0 2048 2048 512 0 0 1 2 3 4 5 6 [] =
     Inl BadArrayNewLength" by blast
  from no_argument_check [of 1 1 "-3" 1 1 "uniform_world 3" 0 0 1 2 3 4 5 6 "[]"] n(2)
  have 3: "exchangePDF (uniform_world (3::int)) 1 1 (-3) 1 1 0 0 1 2 3 4 5 6 [] =
     Inl BadArrayNewLength" by blast
  from no_argument_check [of 1 0 1 1 1 "uniform_world 3" 0 0 1 2 3 4 5 6 "[7]"] h2 run
  have 4: "sendrecv_calls [New 1, Type_commit (Vector 1 1 1), Type_commit (Vector 1 1 1),
                Type_free (Vector 1 1 1), Type_free (Vector 1 1 1), Delete] = []" by blast
  from no_argument_check [of 1 1 0 1 1 "uniform_world 3" 0 0 1 2 3 4 5 6 "replicate 18 7"] h3 d
  have 5: "\<exists>g tr. exchangePDF (uniform_world (3::int)) 1 1 0 1 1 0 0 1 2 3 4 5 6
      (replicate 18 7) = Inr (g, tr)" by blast
  have h3': "(1::int) \<le> 1" "(0::int) \<le> 0"
    "((1+0+1)*(1+1+1)*(1+1+1) :: int) \<le> 2147483647"
    "((1+0+1)*(1+1+1)*(1+1+1)*1 :: int) \<le> 2147483647"
    "nat ((1+0+1)*(1+1+1)*(1+1+1)*1) \<le> length (replicate 18 (7::int))" by simp_all
  show ?thesis by (intro conjI) (rule h2 pv 1 2 3 run 4 h3' d 5)+
qed

text \<open>
  C7 as stated fails: a call with the extent \<open>MX = 0\<close> is not rejected. It returns normally,
  having issued the six paired calls of its ghost layer and overwritten the field with what the
  neighbors sent.
\<close>

theorem zero_extent_not_rejected_counterexample:
  "exchangePDF (uniform_world (3::int)) 1 1 0 1 1 0 0 1 2 3 4 5 6 (replicate 18 7) =
     Inr (replicate 18 3, [New 18] @ component_events 1 0 1 1 0 1 2 3 4 5 6 @ [Delete]) \<and>
   length (sendrecv_calls ([New 18] @ component_events 1 0 1 1 0 1 2 3 4 5 6 @ [Delete])) = 6"
proof -
  have "exchangePDF (uniform_world (3::int)) 1 1 0 1 1 0 0 1 2 3 4 5 6 (replicate 18 7) =
     Inr (replicate 18 3, [New 18] @ component_events 1 0 1 1 0 1 2 3 4 5 6 @ [Delete])"
    by code_simp
  moreover have "irange 1 = [0]" by (simp add: irange_def)
  ultimately show ?thesis
    by (simp add: sendrecv_calls_append sendrecv_calls_component layer_calls_def)
qed

text \<open>
  C8, as amended. One scratch buffer of size \<open>MXP*MYP*MZP\<close> (the 32-bit product of line 33) is
  allocated for the whole call, before the first component's pass, used by every component in
  turn, and released once after the last component's pass: the trace of a call that returns is
  the allocation, then the events of the \<open>Q\<close> passes (which hold no allocation and no
  release), then the release.
\<close>

theorem scratch_allocated_once:
  assumes "exchangePDF w nn Q MX MY MZ myid cm W E S N B T PDF4d = Inr (f', tr')"
  shows "tr' = [New (padded_voxels nn MX MY MZ)] @
               concat (map (\<lambda>a. component_events nn MX MY MZ cm W E S N B T) (irange Q)) @
               [Delete] \<and>
         allocations tr' = [padded_voxels nn MX MY MZ] \<and> releases tr' = 1 \<and>
         allocations (component_events nn MX MY MZ cm W E S N B T) = [] \<and>
         releases (component_events nn MX MY MZ cm W E S N B T) = 0 \<and>
         padded_voxels nn MX MY MZ = int32 ((nn+MX+nn)*(nn+MY+nn)*(nn+MZ+nn)) \<and>
         (- 2147483648 \<le> (nn+MX+nn)*(nn+MY+nn)*(nn+MZ+nn) \<and>
          (nn+MX+nn)*(nn+MY+nn)*(nn+MZ+nn) \<le> 2147483647 \<longrightarrow>
            tr' = [New ((nn+MX+nn)*(nn+MY+nn)*(nn+MZ+nn))] @
               concat (map (\<lambda>a. component_events nn MX MY MZ cm W E S N B T) (irange Q)) @
               [Delete] \<and>
            allocations tr' = [(nn+MX+nn)*(nn+MY+nn)*(nn+MZ+nn)])"
proof -
  note tr = exchangePDF_trace [OF assms]
  have a: "allocations tr' = [padded_voxels nn MX MY MZ]"
    unfolding tr
    by (simp add: allocations_append allocations_concat_Nil allocations_component)
  have r: "releases tr' = 1"
    unfolding tr
    by (simp add: releases_append releases_concat_0 releases_component)
  have e: "tr' = [New ((nn+MX+nn)*(nn+MY+nn)*(nn+MZ+nn))] @
               concat (map (\<lambda>a. component_events nn MX MY MZ cm W E S N B T) (irange Q)) @
               [Delete] \<and>
            allocations tr' = [(nn+MX+nn)*(nn+MY+nn)*(nn+MZ+nn)]"
    if "- 2147483648 \<le> (nn+MX+nn)*(nn+MY+nn)*(nn+MZ+nn) \<and>
        (nn+MX+nn)*(nn+MY+nn)*(nn+MZ+nn) \<le> 2147483647"
  proof -
    have "padded_voxels nn MX MY MZ = (nn+MX+nn)*(nn+MY+nn)*(nn+MZ+nn)"
      unfolding padded_voxels_int32 using that by (intro int32_id) simp_all
    then show ?thesis using tr a by simp
  qed
  show ?thesis
    by (intro conjI impI)
      (rule tr a r allocations_component releases_component padded_voxels_int32
            conjunct1 [OF e] conjunct2 [OF e] | assumption)+
qed

theorem scratch_allocated_once_witness:
  "exchangePDF (uniform_world (3::int)) 1 2 1 1 1 0 0 (-1) (-1) (-1) (-1) (-1) (-1)
     (map int [0..<54]) =
     Inr (map int [0..<54],
          [New 27] @ component_events 1 1 1 1 0 (-1) (-1) (-1) (-1) (-1) (-1) @
          component_events 1 1 1 1 0 (-1) (-1) (-1) (-1) (-1) (-1) @ [Delete]) \<and>
   allocations ([New 27] @ component_events 1 1 1 1 0 (-1) (-1) (-1) (-1) (-1) (-1) @
          component_events 1 1 1 1 0 (-1) (-1) (-1) (-1) (-1) (-1) @ [Delete]) =
     [padded_voxels 1 1 1 1] \<and>
   padded_voxels 1 1 1 1 = int32 ((1+1+1)*(1+1+1)*(1+1+1)) \<and>
   int32 ((1+1+1)*(1+1+1)*(1+1+1)) = 27 \<and>
   (- 2147483648 :: int) \<le> (1+1+1)*(1+1+1)*(1+1+1) \<and>
   ((1+1+1)*(1+1+1)*(1+1+1) :: int) \<le> 2147483647 \<and>
   allocations ([New 27] @ component_events 1 1 1 1 0 (-1) (-1) (-1) (-1) (-1) (-1) @
          component_events 1 1 1 1 0 (-1) (-1) (-1) (-1) (-1) (-1) @ [Delete]) =
     [(1+1+1)*(1+1+1)*(1+1+1)]"
proof -
  have i: "int32 ((1+1+1)*(1+1+1)*(1+1+1)) = 27" by (simp add: int32_def)
  have j: "(- 2147483648 :: int) \<le> (1+1+1)*(1+1+1)*(1+1+1)"
    "((1+1+1)*(1+1+1)*(1+1+1) :: int) \<le> 2147483647" by simp_all
  have run: "exchangePDF (uniform_world (3::int)) 1 2 1 1 1 0 0 (-1) (-1) (-1) (-1) (-1) (-1)
     (map int [0..<54]) =
     Inr (map int [0..<54],
          [New 27] @ component_events 1 1 1 1 0 (-1) (-1) (-1) (-1) (-1) (-1) @
          component_events 1 1 1 1 0 (-1) (-1) (-1) (-1) (-1) (-1) @ [Delete])"
    by code_simp
  from scratch_allocated_once [OF run] show ?thesis using run i j by blast
qed

text \<open>
  C8 as stated fails: a call with two components allocates a single scratch buffer, and
  releases it once, after the second component's pass.
\<close>

theorem scratch_per_component_counterexample:
  "exchangePDF (uniform_world (3::int)) 1 2 1 1 1 0 0 (-1) (-1) (-1) (-1) (-1) (-1)
     (map int [0..<54]) =
     Inr (map int [0..<54],
          [New 27] @ component_events 1 1 1 1 0 (-1) (-1) (-1) (-1) (-1) (-1) @
          component_events 1 1 1 1 0 (-1) (-1) (-1) (-1) (-1) (-1) @ [Delete]) \<and>
   allocations ([New 27] @ component_events 1 1 1 1 0 (-1) (-1) (-1) (-1) (-1) (-1) @
          component_events 1 1 1 1 0 (-1) (-1) (-1) (-1) (-1) (-1) @ [Delete]) = [27] \<and>
   releases ([New 27] @ component_events 1 1 1 1 0 (-1) (-1) (-1) (-1) (-1) (-1) @
          component_events 1 1 1 1 0 (-1) (-1) (-1) (-1) (-1) (-1) @ [Delete]) = 1 \<and>
   length (irange 2) = 2"
proof -
  have "exchangePDF (uniform_world (3::int)) 1 2 1 1 1 0 0 (-1) (-1) (-1) (-1) (-1) (-1)
     (map int [0..<54]) =
     Inr (map int [0..<54],
          [New 27] @ component_events 1 1 1 1 0 (-1) (-1) (-1) (-1) (-1) (-1) @
          component_events 1 1 1 1 0 (-1) (-1) (-1) (-1) (-1) (-1) @ [Delete])"
    by code_simp
  moreover have "length (irange 2) = 2" by (simp add: irange_def)
  ultimately show ?thesis
    by (simp add: allocations_append allocations_component releases_append releases_component)
qed

text \<open>
  C9. \<open>fillGhostLayersMacVar\<close> calls the single-scalar exchange \<open>exchangeDBL\<close> exactly once for
  each scalar field, in the order \<open>rho, u, v, w\<close>, each time with the \<open>nn\<close>, the extents, the
  rank, the communicator and the six neighbors it was given and with the caller's field as it
  is (no repacking), and it returns the four fields as the collaborator returned them: for
  any collaborator, the log of its calls grows by exactly these four entries, and logging
  changes nothing of what the routine returns.
\<close>

theorem fillGhostLayersMacVar_delegates:
  "snd (snd (fillGhostLayersMacVar (logged ex) nn LX LY LZ myid cm W E S N B T rho u v w
               (s, log))) =
     log @ [([nn, LX, LY, LZ, myid, cm, W, E, S, N, B, T], rho),
            ([nn, LX, LY, LZ, myid, cm, W, E, S, N, B, T], u),
            ([nn, LX, LY, LZ, myid, cm, W, E, S, N, B, T], v),
            ([nn, LX, LY, LZ, myid, cm, W, E, S, N, B, T], w)] \<and>
   (fst (fillGhostLayersMacVar (logged ex) nn LX LY LZ myid cm W E S N B T rho u v w (s, log)),
    fst (snd (fillGhostLayersMacVar (logged ex) nn LX LY LZ myid cm W E S N B T rho u v w
                (s, log)))) =
     fillGhostLayersMacVar ex nn LX LY LZ myid cm W E S N B T rho u v w s \<and>
   fillGhostLayersMacVar ex nn LX LY LZ myid cm W E S N B T rho u v w s =
     (case ex nn LX LY LZ myid cm W E S N B T rho s of (rho', s1) \<Rightarrow>
      case ex nn LX LY LZ myid cm W E S N B T u s1 of (u', s2) \<Rightarrow>
      case ex nn LX LY LZ myid cm W E S N B T v s2 of (v', s3) \<Rightarrow>
      case ex nn LX LY LZ myid cm W E S N B T w s3 of (w', s4) \<Rightarrow>
      ((rho', u', v', w'), s4))"
proof -
  let ?A = "[nn, LX, LY, LZ, myid, cm, W, E, S, N, B, T]"
  obtain rho' s1 where 1: "ex nn LX LY LZ myid cm W E S N B T rho s = (rho', s1)"
    by (cases "ex nn LX LY LZ myid cm W E S N B T rho s")
  obtain u' s2 where 2: "ex nn LX LY LZ myid cm W E S N B T u s1 = (u', s2)"
    by (cases "ex nn LX LY LZ myid cm W E S N B T u s1")
  obtain v' s3 where 3: "ex nn LX LY LZ myid cm W E S N B T v s2 = (v', s3)"
    by (cases "ex nn LX LY LZ myid cm W E S N B T v s2")
  obtain w' s4 where 4: "ex nn LX LY LZ myid cm W E S N B T w s3 = (w', s4)"
    by (cases "ex nn LX LY LZ myid cm W E S N B T w s3")
  have l1: "logged ex nn LX LY LZ myid cm W E S N B T rho (s, log) =
            (rho', (s1, log @ [(?A, rho)]))"
    by (simp add: logged_def 1)
  have l2: "logged ex nn LX LY LZ myid cm W E S N B T u (s1, log @ [(?A, rho)]) =
            (u', (s2, log @ [(?A, rho), (?A, u)]))"
    by (simp add: logged_def 2)
  have l3: "logged ex nn LX LY LZ myid cm W E S N B T v (s2, log @ [(?A, rho), (?A, u)]) =
            (v', (s3, log @ [(?A, rho), (?A, u), (?A, v)]))"
    by (simp add: logged_def 3)
  have l4: "logged ex nn LX LY LZ myid cm W E S N B T w (s3, log @ [(?A, rho), (?A, u), (?A, v)]) =
            (w', (s4, log @ [(?A, rho), (?A, u), (?A, v), (?A, w)]))"
    by (simp add: logged_def 4)
  have plain: "fillGhostLayersMacVar ex nn LX LY LZ myid cm W E S N B T rho u v w s =
               ((rho', u', v', w'), s4)"
    by (simp add: fillGhostLayersMacVar_def 1 2 3 4)
  have inst: "fillGhostLayersMacVar (logged ex) nn LX LY LZ myid cm W E S N B T rho u v w (s, log) =
              ((rho', u', v', w'), (s4, log @ [(?A, rho), (?A, u), (?A, v), (?A, w)]))"
    by (simp add: fillGhostLayersMacVar_def l1 l2 l3 l4)
  show ?thesis unfolding inst plain by (simp add: 1 2 3 4)
qed

theorem fillGhostLayersMacVar_delegates_witness:
  "fillGhostLayersMacVar
     (logged (\<lambda>nn LX LY LZ myid cm W E S N B T field (s::nat). (map (\<lambda>x. x + nn) field, Suc s)))
     1 2 3 4 0 9 11 12 13 14 15 16 [10] [20] [30] [40::int] (0, []) =
   (([11], [21], [31], [41]),
    (4, [([1, 2, 3, 4, 0, 9, 11, 12, 13, 14, 15, 16], [10]),
         ([1, 2, 3, 4, 0, 9, 11, 12, 13, 14, 15, 16], [20]),
         ([1, 2, 3, 4, 0, 9, 11, 12, 13, 14, 15, 16], [30]),
         ([1, 2, 3, 4, 0, 9, 11, 12, 13, 14, 15, 16], [40])]))"
proof -
  let ?ex = "\<lambda>nn LX LY LZ myid cm W E S N B T field (s::nat). (map (\<lambda>x. x + nn) field, Suc s)"
  let ?r = "fillGhostLayersMacVar (logged ?ex) 1 2 3 4 0 9 11 12 13 14 15 16
              [10] [20] [30] [40::int] (0, [])"
  note t = fillGhostLayersMacVar_delegates
    [of ?ex 1 2 3 4 0 9 11 12 13 14 15 16 "[10]" "[20]" "[30]" "[40::int]" 0 "[]"]
  from t have log: "snd (snd ?r) =
       [([1, 2, 3, 4, 0, 9, 11, 12, 13, 14, 15, 16], [10]),
        ([1, 2, 3, 4, 0, 9, 11, 12, 13, 14, 15, 16], [20]),
        ([1, 2, 3, 4, 0, 9, 11, 12, 13, 14, 15, 16], [30]),
        ([1, 2, 3, 4, 0, 9, 11, 12, 13, 14, 15, 16], [40])]" by simp
  from t have res: "(fst ?r, fst (snd ?r)) = (([11], [21], [31], [41]), 4)" by simp
  show ?thesis using log res by (metis prod.collapse prod.inject)
qed

text \<open>
  C10. Under the preconditions \<open>MX \<ge> 1\<close>, \<open>MY \<ge> 1\<close>, \<open>MZ \<ge> 1\<close>, \<open>nn \<ge> 1\<close>, \<open>Q \<ge> 1\<close> and with
  \<open>MXP*MYP*MZP*Q\<close> within the range of a 32-bit \<^verbatim>\<open>int\<close>, every scratch-buffer index the
  exchange reads or writes (each element of the send and of the receive of each of the six
  paired calls, with the descriptors the routine builds, for every ghost-layer index \<open>i\<close> in
  \<open>0..nn-1\<close>) lies within \<open>[0, MXP*MYP*MZP)\<close>, and every index \<open>index3D(i,j,k)\<close> and
  \<open>a + index3D(i,j,k)*Q\<close> of gather and scatter lies within \<open>[0, MXP*MYP*MZP)\<close> and
  \<open>[0, MXP*MYP*MZP*Q)\<close>, all of them within the range of an \<^verbatim>\<open>int\<close>. Hence, on a field of at
  least \<open>MXP*MYP*MZP*Q\<close> elements the routine never leaves a buffer: it returns, unless the
  transport fails.
\<close>

theorem indices_in_bounds:
  assumes "1 \<le> MX" "1 \<le> MY" "1 \<le> MZ" "1 \<le> nn" "1 \<le> Q"
    and "(nn+MX+nn)*(nn+MY+nn)*(nn+MZ+nn)*Q \<le> 2147483647"
  shows "build_stridex nn MX MY MZ = Inr (x_normal (nn+MX+nn) (nn+MY+nn) (nn+MZ+nn)) \<and>
         build_stridey nn MX MY MZ = Inr (y_normal (nn+MX+nn) (nn+MY+nn) (nn+MZ+nn)) \<and>
         (\<forall>i c p. 0 \<le> i \<and> i < nn \<and>
            c \<in> set (layer_calls nn MX MY MZ cm W E S N B T
                        (x_normal (nn+MX+nn) (nn+MY+nn) (nn+MZ+nn))
                        (y_normal (nn+MX+nn) (nn+MY+nn) (nn+MZ+nn)) i) \<and>
            p \<in> set (buffer_addrs (sendbuf c) (sendcount c) (sendtype c)) \<union>
                set (buffer_addrs (recvbuf c) (recvcount c) (recvtype c)) \<longrightarrow>
            0 \<le> p \<and> p < (nn+MX+nn)*(nn+MY+nn)*(nn+MZ+nn)) \<and>
         (\<forall>i j k a. 0 \<le> i \<and> i < nn+MX+nn \<and> 0 \<le> j \<and> j < nn+MY+nn \<and> 0 \<le> k \<and> k < nn+MZ+nn \<and>
            0 \<le> a \<and> a < Q \<longrightarrow>
            0 \<le> index3D (nn+MX+nn) (nn+MY+nn) i j k \<and>
            index3D (nn+MX+nn) (nn+MY+nn) i j k < (nn+MX+nn)*(nn+MY+nn)*(nn+MZ+nn) \<and>
            0 \<le> index4D Q (nn+MX+nn) (nn+MY+nn) i j k a \<and>
            index4D Q (nn+MX+nn) (nn+MY+nn) i j k a < (nn+MX+nn)*(nn+MY+nn)*(nn+MZ+nn)*Q) \<and>
         (nn+MX+nn)*(nn+MY+nn)*(nn+MZ+nn) \<le> 2147483647 \<and>
         (nat ((nn+MX+nn)*(nn+MY+nn)*(nn+MZ+nn)*Q) \<le> length PDF4d \<longrightarrow>
            (\<exists>f' tr'. exchangePDF w nn Q MX MY MZ myid cm W E S N B T PDF4d = Inr (f', tr')) \<or>
            exchangePDF w nn Q MX MY MZ myid cm W E S N B T PDF4d = Inl MPI_Abort \<and>
            \<not> transport_delivers w)"
proof -
  let ?X = "nn+MX+nn" and ?Y = "nn+MY+nn" and ?Z = "nn+MZ+nn"
  have nn: "0 \<le> nn" and dims: "0 \<le> MX" "0 \<le> MY" "0 \<le> MZ" using assms(1-4) by simp_all
  have nonneg: "0 \<le> ?X" "0 \<le> ?Y" "0 \<le> ?Z" using nn dims by simp_all
  have 1: "build_stridex nn MX MY MZ = Inr (x_normal ?X ?Y ?Z)"
    by (rule build_stridex_eq [OF nonneg(2,3)])
  have 2: "build_stridey nn MX MY MZ = Inr (y_normal ?X ?Y ?Z)"
    by (rule build_stridey_eq [OF nonneg(1,3)])
  have 3: "0 \<le> p \<and> p < ?X*?Y*?Z"
    if "0 \<le> i \<and> i < nn \<and>
        c \<in> set (layer_calls nn MX MY MZ cm W E S N B T (x_normal ?X ?Y ?Z) (y_normal ?X ?Y ?Z) i) \<and>
        p \<in> set (buffer_addrs (sendbuf c) (sendcount c) (sendtype c)) \<union>
            set (buffer_addrs (recvbuf c) (recvcount c) (recvtype c))" for i c p
  proof -
    from that have i: "0 \<le> i" "i < nn"
      and c: "c \<in> set (layer_calls nn MX MY MZ cm W E S N B T (x_normal ?X ?Y ?Z)
                         (y_normal ?X ?Y ?Z) i)"
      and p: "p \<in> set (buffer_addrs (sendbuf c) (sendcount c) (sendtype c)) \<or>
              p \<in> set (buffer_addrs (recvbuf c) (recvcount c) (recvtype c))" by simp_all
    from p call_in_bounds(1,2) [OF c dims i] show ?thesis by blast
  qed
  have 4: "0 \<le> index3D ?X ?Y i j k \<and> index3D ?X ?Y i j k < ?X*?Y*?Z \<and>
           0 \<le> index4D Q ?X ?Y i j k a \<and> index4D Q ?X ?Y i j k a < ?X*?Y*?Z*Q"
    if "0 \<le> i \<and> i < ?X \<and> 0 \<le> j \<and> j < ?Y \<and> 0 \<le> k \<and> k < ?Z \<and> 0 \<le> a \<and> a < Q" for i j k a
  proof -
    from that have b: "in_box ?X ?Y ?Z i j k" and a: "0 \<le> a" "a < Q" by (simp_all add: in_box_def)
    from in_box_index3D [OF b] in_box_index4D [OF b a] show ?thesis by blast
  qed
  have pos: "1 \<le> ?X" "1 \<le> ?Y" "1 \<le> ?Z" using assms(1-4) by simp_all
  have "0 \<le> ?X*?Y*?Z" using nonneg by simp
  then have "?X*?Y*?Z * 1 \<le> ?X*?Y*?Z * Q" using assms(5) by (intro mult_left_mono) simp_all
  then have 5: "?X*?Y*?Z \<le> 2147483647" using assms(6) by simp
  have 6: "(\<exists>f' tr'. exchangePDF w nn Q MX MY MZ myid cm W E S N B T PDF4d = Inr (f', tr')) \<or>
           exchangePDF w nn Q MX MY MZ myid cm W E S N B T PDF4d = Inl MPI_Abort \<and>
           \<not> transport_delivers w"
    if "nat (?X*?Y*?Z*Q) \<le> length PDF4d"
    using exchangePDF_safe [OF nn dims pos 5 assms(6) that, of w myid cm W E S N B T] by blast
  show ?thesis using 1 2 3 4 5 6 by blast
qed

theorem indices_in_bounds_witness:
  "(1::int) \<le> 1 \<and> ((1+1+1)*(1+1+1)*(1+1+1)*1 :: int) \<le> 2147483647 \<and>
   list_all (\<lambda>p. 0 \<le> p \<and> p < (1+1+1)*(1+1+1)*(1+1+1))
     (buffer_addrs (sendbuf (call_west 1 1 1 1 0 1 2 (x_normal (1+1+1) (1+1+1) (1+1+1)) 0))
        (sendcount (call_west 1 1 1 1 0 1 2 (x_normal (1+1+1) (1+1+1) (1+1+1)) 0))
        (sendtype (call_west 1 1 1 1 0 1 2 (x_normal (1+1+1) (1+1+1) (1+1+1)) 0))) \<and>
   buffer_addrs (recvbuf (call_west 1 1 1 1 0 1 2 (x_normal (1+1+1) (1+1+1) (1+1+1)) 0))
        (recvcount (call_west 1 1 1 1 0 1 2 (x_normal (1+1+1) (1+1+1) (1+1+1)) 0))
        (recvtype (call_west 1 1 1 1 0 1 2 (x_normal (1+1+1) (1+1+1) (1+1+1)) 0)) =
     [2, 5, 8, 11, 14, 17, 20, 23, 26] \<and>
   index4D 1 (1+1+1) (1+1+1) 2 2 2 0 < (1+1+1)*(1+1+1)*(1+1+1)*1 \<and>
   nat ((1+1+1)*(1+1+1)*(1+1+1)*1) \<le> length (replicate 27 (7::int)) \<and>
   transport_delivers (uniform_world (3::int)) \<and>
   (\<exists>f' tr'. exchangePDF (uniform_world (3::int)) 1 1 1 1 1 0 0 1 2 3 4 5 6 (replicate 27 7) =
      Inr (f', tr'))"
proof -
  let ?c = "call_west 1 1 1 1 0 1 2 (x_normal (1+1+1) (1+1+1) (1+1+1)) 0"
  have h: "(1::int) \<le> 1" "((1+1+1)*(1+1+1)*(1+1+1)*1 :: int) \<le> 2147483647" by simp_all
  note t = indices_in_bounds [OF h(1) h(1) h(1) h(1) h(1) h(2),
      where cm = 0 and W = 1 and E = 2 and S = 3 and N = 4 and B = 5 and T = 6
        and w = "uniform_world (3::int)" and myid = 0 and PDF4d = "replicate 27 7"]
  have c: "?c \<in> set (layer_calls 1 1 1 1 0 1 2 3 4 5 6 (x_normal (1+1+1) (1+1+1) (1+1+1))
                       (y_normal (1+1+1) (1+1+1) (1+1+1)) 0)"
    by (simp add: layer_calls_def)
  have i: "(0::int) \<le> 0" "(0::int) < 1" by simp_all
  from t c i have "\<forall>p\<in>set (buffer_addrs (sendbuf ?c) (sendcount ?c) (sendtype ?c)).
      0 \<le> p \<and> p < (1+1+1)*(1+1+1)*(1+1+1)" by blast
  then have 1: "list_all (\<lambda>p. 0 \<le> p \<and> p < (1+1+1)*(1+1+1)*(1+1+1))
      (buffer_addrs (sendbuf ?c) (sendcount ?c) (sendtype ?c))" by (simp only: list_all_iff)
  have 2: "buffer_addrs (recvbuf ?c) (recvcount ?c) (recvtype ?c) = [2, 5, 8, 11, 14, 17, 20, 23, 26]"
    by code_simp
  have b: "(0::int) \<le> 2 \<and> (2::int) < 1+1+1 \<and> (0::int) \<le> 2 \<and> (2::int) < 1+1+1 \<and>
           (0::int) \<le> 2 \<and> (2::int) < 1+1+1 \<and> (0::int) \<le> 0 \<and> (0::int) < 1" by simp
  from t b have 3: "index4D 1 (1+1+1) (1+1+1) 2 2 2 0 < (1+1+1)*(1+1+1)*(1+1+1)*1" by blast
  have 4: "nat ((1+1+1)*(1+1+1)*(1+1+1)*1) \<le> length (replicate 27 (7::int))" by simp
  have 5: "transport_delivers (uniform_world (3::int))"
    by (simp add: transport_delivers_def uniform_world_def)
  from t 4 5 have 6: "\<exists>f' tr'. exchangePDF (uniform_world (3::int)) 1 1 1 1 1 0 0 1 2 3 4 5 6
      (replicate 27 7) = Inr (f', tr')" by blast
  show ?thesis by (intro conjI) (rule h 1 2 3 4 5 6)+
qed

end
